theory Spec2Isabelle
  imports Complex_Main
begin

section \<open>Data model (models.py)\<close>

text \<open>
  \<^verbatim>\<open>class AgentType(str, Enum)\<close> and \<^verbatim>\<open>class TaskStatus(str, Enum)\<close>. The members of
  \<open>AgentType\<close> are strings as well: \<open>agent_value\<close> gives the string each member is.
\<close>

datatype AgentType = ELIZAOS | TRON | GOOSE

datatype TaskStatus = PENDING | IN_PROGRESS | COMPLETED | FAILED

fun agent_value :: "AgentType \<Rightarrow> string" where
  "agent_value ELIZAOS = ''elizaos''"
| "agent_value TRON = ''tron''"
| "agent_value GOOSE = ''goose''"

text \<open>
  The objects Python's JSON decoder builds: \<open>None\<close>, \<open>bool\<close>, numbers, \<open>str\<close>, \<open>list\<close>
  and \<open>dict\<close> (an association list read with \<open>map_of\<close>). The body of an HTTP response and
  the output of the selection chain are such objects.
\<close>

datatype json =
    JNull
  | JBool bool
  | JNum rat
  | JStr string
  | JArr "json list"
  | JObj "(string \<times> json) list"

text \<open>The exceptions the code can meet. Those raised inside a library carry its name for them.\<close>

datatype py_exception =
    KeyError string
  | TypeError
  | StopIteration
  | ValidationError
  | HTTPError nat
  | LibraryError string

text \<open>
  \<^verbatim>\<open>class AgentTask(BaseModel)\<close>. \<open>response\<close> is declared \<open>Optional[str]\<close>, but the model does not
  validate assignments, and \<open>process_with_agent\<close> assigns whatever the \<open>result\<close> field of the
  JSON body holds: the field is a \<open>json\<close>, \<open>JNull\<close> being \<open>None\<close>. \<open>error\<close> only ever receives
  \<open>str(e)\<close>.
\<close>

record AgentTask =
  agent_type :: AgentType
  query :: string
  status :: TaskStatus
  response :: json
  error :: "string option"

datatype message = HumanMessage string | AIMessage string

text \<open>
  \<^verbatim>\<open>class ManagerState(TypedDict)\<close>. \<open>required_agents\<close> is a Python set of the values the
  selection returned, kept here as a list without repetition.
\<close>

record ManagerState =
  original_query :: string
  tasks :: "AgentTask list"
  required_agents :: "json list"
  current_agent :: "AgentType option"
  messages :: "message list"
  final_output :: string

section \<open>The world outside the program\<close>

text \<open>
  Every call that leaves the process is recorded, in order. The services answer as they
  please: each is a function of the calls made so far and of the arguments of the call.
\<close>

datatype call =
    SelectorCall string
  | HttpPost string string
  | AggregatorCall string string

record http_response =
  status_code :: nat
  json_body :: "py_exception + json"

text \<open>
  \<open>chain_invoke\<close> is \<^verbatim>\<open>chain.invoke({"query": query})\<close> of the selection chain (prompt, model,
  output-fixing JSON parser): an exception or the decoded object. \<open>requests_post\<close> is
  \<^verbatim>\<open>requests.post(endpoint, headers=..., json={"query": query})\<close>: an exception or a response,
  whose \<open>json_body\<close> is what \<^verbatim>\<open>response.json()\<close> gives. \<open>llm_invoke\<close> is the aggregation chain,
  given the query and the agent responses, and returns \<^verbatim>\<open>result.content\<close>.
  \<open>exc_str\<close> is Python's \<open>str\<close> of an exception, \<open>value_str\<close> its \<open>str\<close> of an object that
  is not a string, and \<open>set_hash\<close> decides the order in which a set is iterated.
\<close>

record env =
  chain_invoke :: "call list \<Rightarrow> string \<Rightarrow> py_exception + json"
  requests_post :: "call list \<Rightarrow> string \<Rightarrow> string \<Rightarrow> py_exception + http_response"
  llm_invoke :: "call list \<Rightarrow> string \<Rightarrow> string \<Rightarrow> py_exception + string"
  exc_str :: "py_exception \<Rightarrow> string"
  value_str :: "json \<Rightarrow> string"
  set_hash :: "json \<Rightarrow> nat"

section \<open>Python's operations on decoded JSON\<close>

text \<open>\<^verbatim>\<open>obj[key]\<close> with a string key: only a dict has string keys.\<close>

fun subscript :: "json \<Rightarrow> string \<Rightarrow> py_exception + json" where
  "subscript (JObj kvs) k = (case map_of kvs k of None \<Rightarrow> Inl (KeyError k) | Some v \<Rightarrow> Inr v)"
| "subscript _ k = Inl TypeError"

text \<open>\<^verbatim>\<open>for x in obj\<close>: a list gives its elements, a dict its keys, a string its characters.\<close>

fun py_iter :: "json \<Rightarrow> py_exception + json list" where
  "py_iter (JArr xs) = Inr xs"
| "py_iter (JObj kvs) = Inr (map (\<lambda>kv. JStr (fst kv)) kvs)"
| "py_iter (JStr s) = Inr (map (\<lambda>c. JStr [c]) s)"
| "py_iter _ = Inl TypeError"

text \<open>\<^verbatim>\<open>if obj\<close>: truth value of an object.\<close>

fun truthy :: "json \<Rightarrow> bool" where
  "truthy JNull = False"
| "truthy (JBool b) = b"
| "truthy (JNum n) = (n \<noteq> 0)"
| "truthy (JStr s) = (s \<noteq> [])"
| "truthy (JArr xs) = (xs \<noteq> [])"
| "truthy (JObj kvs) = (kvs \<noteq> [])"

text \<open>Lists and dicts cannot be members of a set.\<close>

fun hashable :: "json \<Rightarrow> bool" where
  "hashable (JArr xs) = False"
| "hashable (JObj kvs) = False"
| "hashable _ = True"

text \<open>\<open>==\<close> between hashable objects: \<open>True\<close> is \<open>1\<close> and \<open>False\<close> is \<open>0\<close>.\<close>

fun py_eq :: "json \<Rightarrow> json \<Rightarrow> bool" where
  "py_eq (JBool b) (JNum n) = (n = (if b then 1 else 0))"
| "py_eq (JNum n) (JBool b) = (n = (if b then 1 else 0))"
| "py_eq x y = (x = y)"

definition set_add :: "json \<Rightarrow> json list \<Rightarrow> json list" where
  "set_add x S = (if list_ex (py_eq x) S then S else S @ [x])"

definition set_iter :: "env \<Rightarrow> json list \<Rightarrow> json list" where
  "set_iter e S = sort_key (set_hash e) S"

definition bind_exc :: "py_exception + 'a \<Rightarrow> ('a \<Rightarrow> py_exception + 'b) \<Rightarrow> py_exception + 'b" where
  "bind_exc m f = (case m of Inl e \<Rightarrow> Inl e | Inr x \<Rightarrow> f x)"

section \<open>agents.py\<close>

definition ELIZAOS_API_ENDPOINT :: string where
  "ELIZAOS_API_ENDPOINT = ''http://localhost:8000/elizaOS-eliza''"

definition TRON_API_ENDPOINT :: string where
  "TRON_API_ENDPOINT = ''http://localhost:8000/elizaOS-eliza''"

definition GOOSE_API_ENDPOINT :: string where
  "GOOSE_API_ENDPOINT = ''http://localhost:8000/block-goose''"

text \<open>
  \<^verbatim>\<open>response.raise_for_status()\<close> of the requests library raises \<open>HTTPError\<close> for a client
  error (400 to 499) and for a server error (500 to 599), and for no other status.
\<close>

definition raise_for_status :: "http_response \<Rightarrow> py_exception + unit" where
  "raise_for_status r =
     (if 400 \<le> status_code r \<and> status_code r < 600 then Inl (HTTPError (status_code r))
      else Inr ())"

text \<open>
  The dict \<open>process\<close> returns: \<^verbatim>\<open>{"success": True, "result": v}\<close> or
  \<^verbatim>\<open>{"success": False, "error": msg}\<close>.
\<close>

datatype agent_result = Success json | Failure string

text \<open>The body of the \<open>try\<close> of \<open>BaseAgent.process\<close>, after the request has been sent.\<close>

definition process_try :: "py_exception + http_response \<Rightarrow> py_exception + json" where
  "process_try posted =
     bind_exc posted (\<lambda>resp.
     bind_exc (raise_for_status resp) (\<lambda>_.
     bind_exc (json_body resp) (\<lambda>body.
     subscript body ''result'')))"

definition BaseAgent_process ::
  "env \<Rightarrow> call list \<Rightarrow> string \<Rightarrow> string \<Rightarrow> call list \<times> agent_result" where
  "BaseAgent_process e tr api_endpoint q =
     (tr @ [HttpPost api_endpoint q],
      case process_try (requests_post e tr api_endpoint q) of
        Inr v \<Rightarrow> Success v
      | Inl ex \<Rightarrow> Failure (exc_str e ex))"

section \<open>main.py: the manager agent\<close>

text \<open>\<open>self.framework_agents\<close>: the endpoint of the agent object kept for each agent type.\<close>

fun framework_agents :: "AgentType \<Rightarrow> string" where
  "framework_agents ELIZAOS = ELIZAOS_API_ENDPOINT"
| "framework_agents TRON = TRON_API_ENDPOINT"
| "framework_agents GOOSE = GOOSE_API_ENDPOINT"

text \<open>\<^verbatim>\<open>set(AgentType)\<close>: the three members, each equal to its string.\<close>

definition all_agent_types :: "json list" where
  "all_agent_types = [JStr ''elizaos'', JStr ''tron'', JStr ''goose'']"

text \<open>
  The set comprehension
  \<^verbatim>\<open>{agent['agent_type'] for agent in agents_list if agent['needed']}\<close>:
  the condition is evaluated first, then the element, which must be hashable.
\<close>

fun collect_required :: "json list \<Rightarrow> json list \<Rightarrow> py_exception + json list" where
  "collect_required [] S = Inr S"
| "collect_required (agent # rest) S =
     (case subscript agent ''needed'' of
        Inl ex \<Rightarrow> Inl ex
      | Inr needed \<Rightarrow>
          if truthy needed then
            (case subscript agent ''agent_type'' of
               Inl ex \<Rightarrow> Inl ex
             | Inr a \<Rightarrow> if hashable a then collect_required rest (set_add a S) else Inl TypeError)
          else collect_required rest S)"

text \<open>The body of the \<open>try\<close> of \<open>determine_required_agents\<close>, after the chain has been invoked.\<close>

definition selection_try :: "py_exception + json \<Rightarrow> py_exception + json list" where
  "selection_try invoked =
     bind_exc invoked (\<lambda>result.
     bind_exc (subscript result ''agents'') (\<lambda>agents_list.
     bind_exc (py_iter agents_list) (\<lambda>items.
     collect_required items [])))"

definition determine_required_agents ::
  "env \<Rightarrow> call list \<Rightarrow> string \<Rightarrow> call list \<times> json list" where
  "determine_required_agents e tr q =
     (tr @ [SelectorCall q],
      case selection_try (chain_invoke e tr q) of
        Inr required \<Rightarrow> required
      | Inl ex \<Rightarrow> all_agent_types)"

definition manager_process_with_agent ::
  "env \<Rightarrow> call list \<Rightarrow> AgentType \<Rightarrow> string \<Rightarrow> call list \<times> agent_result" where
  "manager_process_with_agent e tr a q = BaseAgent_process e tr (framework_agents a) q"

text \<open>\<open>str.upper\<close> on ASCII text, and \<open>sep.join\<close>.\<close>

definition upper_char :: "char \<Rightarrow> char" where
  "upper_char c =
     (let n = (of_char c :: nat) in if 97 \<le> n \<and> n \<le> 122 then char_of (n - 32) else c)"

definition str_upper :: "string \<Rightarrow> string" where
  "str_upper s = map upper_char s"

fun str_join :: "string \<Rightarrow> string list \<Rightarrow> string" where
  "str_join sep [] = []"
| "str_join sep [x] = x"
| "str_join sep (x # y # zs) = x @ sep @ str_join sep (y # zs)"

text \<open>An object inside an f-string: a string stands for itself, anything else for its \<open>str\<close>.\<close>

definition format_value :: "env \<Rightarrow> json \<Rightarrow> string" where
  "format_value e v = (case v of JStr s \<Rightarrow> s | _ \<Rightarrow> value_str e v)"

text \<open>\<^verbatim>\<open>f"{task.agent_type.upper()} AGENT:\n{task.response}"\<close>\<close>

definition format_task :: "env \<Rightarrow> AgentTask \<Rightarrow> string" where
  "format_task e t =
     str_upper (agent_value (agent_type t)) @ '' AGENT:'' @ [CHR 0x0A] @ format_value e (response t)"

definition agent_responses :: "env \<Rightarrow> AgentTask list \<Rightarrow> string" where
  "agent_responses e completed_tasks =
     str_join [CHR 0x0A, CHR 0x0A]
       (map (format_task e) (filter (\<lambda>t. status t = COMPLETED) completed_tasks))"

definition aggregate_responses ::
  "env \<Rightarrow> call list \<Rightarrow> string \<Rightarrow> AgentTask list \<Rightarrow> call list \<times> (py_exception + string)" where
  "aggregate_responses e tr q completed_tasks =
     (tr @ [AggregatorCall q (agent_responses e completed_tasks)],
      llm_invoke e tr q (agent_responses e completed_tasks))"

section \<open>main.py: the nodes of the graph\<close>

text \<open>
  A node returns a dict. A key it holds is written to the state, a key it lacks is left
  alone: \<open>None\<close> is the missing key.
\<close>

record update =
  upd_original_query :: "string option"
  upd_tasks :: "AgentTask list option"
  upd_required_agents :: "json list option"
  upd_current_agent :: "AgentType option option"
  upd_messages :: "message list option"
  upd_final_output :: "string option"

text \<open>\<^verbatim>\<open>{**state}\<close>: every key of the state.\<close>

definition state_copy :: "ManagerState \<Rightarrow> update" where
  "state_copy s =
     \<lparr>upd_original_query = Some (original_query s), upd_tasks = Some (tasks s),
      upd_required_agents = Some (required_agents s), upd_current_agent = Some (current_agent s),
      upd_messages = Some (messages s), upd_final_output = Some (final_output s)\<rparr>"

text \<open>
  \<^verbatim>\<open>AgentTask(agent_type=..., query=...)\<close>: pydantic accepts a member of \<open>AgentType\<close> or the
  string of one, and raises on anything else.
\<close>

definition validate_agent_type :: "json \<Rightarrow> py_exception + AgentType" where
  "validate_agent_type v =
     (if v = JStr ''elizaos'' then Inr ELIZAOS
      else if v = JStr ''tron'' then Inr TRON
      else if v = JStr ''goose'' then Inr GOOSE
      else Inl ValidationError)"

definition new_AgentTask :: "json \<Rightarrow> string \<Rightarrow> py_exception + AgentTask" where
  "new_AgentTask a q =
     bind_exc (validate_agent_type a) (\<lambda>t.
       Inr \<lparr>agent_type = t, query = q, status = PENDING, response = JNull, error = None\<rparr>)"

fun make_tasks :: "json list \<Rightarrow> string \<Rightarrow> py_exception + AgentTask list" where
  "make_tasks [] q = Inr []"
| "make_tasks (a # rest) q =
     (case new_AgentTask a q of
        Inl ex \<Rightarrow> Inl ex
      | Inr t \<Rightarrow> (case make_tasks rest q of Inl ex \<Rightarrow> Inl ex | Inr ts \<Rightarrow> Inr (t # ts)))"

definition initialize ::
  "env \<Rightarrow> call list \<Rightarrow> ManagerState \<Rightarrow> call list \<times> (py_exception + update)" where
  "initialize e tr s =
     (case determine_required_agents e tr (original_query s) of
        (tr', required) \<Rightarrow>
          (tr', bind_exc (make_tasks (set_iter e required) (original_query s)) (\<lambda>ts.
                  Inr ((state_copy s)\<lparr>upd_tasks := Some ts, upd_required_agents := Some required,
                                       upd_current_agent := Some None\<rparr>))))"

definition select_next_agent :: "ManagerState \<Rightarrow> update" where
  "select_next_agent s =
     (case find (\<lambda>t. status t = PENDING) (tasks s) of
        Some t \<Rightarrow> (state_copy s)\<lparr>upd_current_agent := Some (Some (agent_type t))\<rparr>
      | None \<Rightarrow> (state_copy s)\<lparr>upd_current_agent := Some None\<rparr>)"

text \<open>
  The task found by \<open>next\<close> is changed in place and then put at every position that holds a
  task of its agent type.
\<close>

definition record_result :: "AgentTask \<Rightarrow> agent_result \<Rightarrow> AgentTask" where
  "record_result t r =
     (case r of
        Success v \<Rightarrow> t\<lparr>response := v, status := COMPLETED\<rparr>
      | Failure msg \<Rightarrow> t\<lparr>error := Some msg, status := FAILED\<rparr>)"

definition process_with_agent ::
  "env \<Rightarrow> call list \<Rightarrow> ManagerState \<Rightarrow> call list \<times> (py_exception + update)" where
  "process_with_agent e tr s =
     (case current_agent s of
        None \<Rightarrow> (tr, Inr (state_copy s))
      | Some a \<Rightarrow>
          (case find (\<lambda>t. agent_type t = a) (tasks s) of
             None \<Rightarrow> (tr, Inl StopIteration)
           | Some current_task \<Rightarrow>
               (case manager_process_with_agent e tr (agent_type current_task) (query current_task) of
                  (tr', r) \<Rightarrow>
                    (tr', Inr ((state_copy s)\<lparr>upd_tasks := Some
                       (map (\<lambda>t. if agent_type t \<noteq> agent_type current_task then t
                                  else record_result current_task r) (tasks s))\<rparr>)))))"

definition should_continue :: "ManagerState \<Rightarrow> string" where
  "should_continue s =
     (if current_agent s = None \<and> list_all (\<lambda>t. status t \<noteq> PENDING) (tasks s)
      then ''finish'' else ''continue'')"

definition fallback_output :: string where
  "fallback_output = ''Unable to provide a response as all specialized agents encountered errors.''"

definition empty_update :: update where
  "empty_update =
     \<lparr>upd_original_query = None, upd_tasks = None, upd_required_agents = None,
      upd_current_agent = None, upd_messages = None, upd_final_output = None\<rparr>"

definition answer_message :: "string \<Rightarrow> message" where
  "answer_message out =
     AIMessage (''Query processed. Here'' @ [CHR 0x27] @ ''s the answer:'' @ [CHR 0x0A, CHR 0x0A] @ out)"

definition finalize ::
  "env \<Rightarrow> call list \<Rightarrow> ManagerState \<Rightarrow> call list \<times> (py_exception + update)" where
  "finalize e tr s =
     (let completed_tasks = filter (\<lambda>t. status t = COMPLETED) (tasks s) in
      case (if completed_tasks = [] then (tr, Inr fallback_output)
            else aggregate_responses e tr (original_query s) completed_tasks) of
        (tr', r) \<Rightarrow>
          (tr', bind_exc r (\<lambda>out.
                  Inr (empty_update\<lparr>upd_final_output := Some out,
                                     upd_messages := Some [answer_message out]\<rparr>))))"

section \<open>main.py: the graph\<close>

text \<open>
  How the graph writes the dict a node returns to the state. \<open>ManagerState\<close> annotates
  \<open>messages\<close> and \<open>final_output\<close> with \<open>operator.add\<close>: what a node returns under these keys
  is appended to the value the state holds. The other keys take the value returned.
\<close>

definition apply_update :: "ManagerState \<Rightarrow> update \<Rightarrow> ManagerState" where
  "apply_update s u =
     \<lparr>original_query = (case upd_original_query u of None \<Rightarrow> original_query s | Some v \<Rightarrow> v),
      tasks = (case upd_tasks u of None \<Rightarrow> tasks s | Some v \<Rightarrow> v),
      required_agents = (case upd_required_agents u of None \<Rightarrow> required_agents s | Some v \<Rightarrow> v),
      current_agent = (case upd_current_agent u of None \<Rightarrow> current_agent s | Some v \<Rightarrow> v),
      messages = (case upd_messages u of None \<Rightarrow> messages s | Some v \<Rightarrow> messages s @ v),
      final_output = (case upd_final_output u of None \<Rightarrow> final_output s | Some v \<Rightarrow> final_output s @ v)\<rparr>"

text \<open>The four nodes, and \<open>END\<close>, where the graph stops and no function runs.\<close>

datatype node = Initialize | SelectNextAgent | ProcessWithAgent | Finalize | END

fun run_node ::
  "env \<Rightarrow> node \<Rightarrow> call list \<Rightarrow> ManagerState \<Rightarrow> call list \<times> (py_exception + update)" where
  "run_node e Initialize tr s = initialize e tr s"
| "run_node e SelectNextAgent tr s = (tr, Inr (select_next_agent s))"
| "run_node e ProcessWithAgent tr s = process_with_agent e tr s"
| "run_node e Finalize tr s = finalize e tr s"

text \<open>
  The edges. The conditional edge out of \<open>select_next_agent\<close> reads the state that node
  has just written.
\<close>

fun next_node :: "node \<Rightarrow> ManagerState \<Rightarrow> node" where
  "next_node Initialize s = SelectNextAgent"
| "next_node ProcessWithAgent s = SelectNextAgent"
| "next_node SelectNextAgent s =
     (if should_continue s = ''finish'' then Finalize else ProcessWithAgent)"
| "next_node Finalize s = END"

text \<open>One step of the graph: run the node, write what it returned, follow the edge.\<close>

definition graph_step ::
  "env \<Rightarrow> node \<Rightarrow> call list \<Rightarrow> ManagerState \<Rightarrow>
     call list \<times> (py_exception + node \<times> ManagerState)" where
  "graph_step e n tr s =
     (case run_node e n tr s of
        (tr', r) \<Rightarrow>
          (tr', bind_exc r (\<lambda>u. Inr (next_node n (apply_update s u), apply_update s u))))"

text \<open>
  \<^verbatim>\<open>graph.invoke\<close>: steps are taken until \<open>END\<close>. A run that is not over after as many
  steps as the recursion limit allows raises \<open>GraphRecursionError\<close>; the limit is 25 unless
  configured otherwise, which this program does not. An exception raised in a node ends the
  run.
\<close>

datatype failure = Raised py_exception | GraphRecursionError

definition recursion_limit :: nat where
  "recursion_limit = 25"

fun run_graph ::
  "env \<Rightarrow> nat \<Rightarrow> node \<Rightarrow> call list \<Rightarrow> ManagerState \<Rightarrow> call list \<times> (failure + ManagerState)" where
  "run_graph e fuel END tr s = (tr, Inr s)"
| "run_graph e 0 n tr s = (tr, Inl GraphRecursionError)"
| "run_graph e (Suc fuel) n tr s =
     (case graph_step e n tr s of
        (tr', Inl ex) \<Rightarrow> (tr', Inl (Raised ex))
      | (tr', Inr (n', s')) \<Rightarrow> run_graph e fuel n' tr' s')"

definition initial_state :: "string \<Rightarrow> ManagerState" where
  "initial_state q =
     \<lparr>original_query = q, tasks = [], required_agents = [], current_agent = None,
      messages = [HumanMessage q], final_output = []\<rparr>"

definition run_framework_manager ::
  "env \<Rightarrow> call list \<Rightarrow> string \<Rightarrow> call list \<times> (failure + ManagerState)" where
  "run_framework_manager e tr q = run_graph e recursion_limit Initialize tr (initial_state q)"

definition query_manager_agent ::
  "env \<Rightarrow> call list \<Rightarrow> string \<Rightarrow> call list \<times> (failure + ManagerState)" where
  "query_manager_agent e tr q = run_framework_manager e tr q"

text \<open>
  The executions of the graph as a relation: \<open>steps e n tr s n' tr' s'\<close> when the graph,
  about to run node \<open>n\<close> in state \<open>s\<close> after the calls \<open>tr\<close>, comes to node \<open>n'\<close> in state
  \<open>s'\<close> after the calls \<open>tr'\<close>, in any number of steps none of which raises.
\<close>

inductive steps ::
  "env \<Rightarrow> node \<Rightarrow> call list \<Rightarrow> ManagerState \<Rightarrow> node \<Rightarrow> call list \<Rightarrow> ManagerState \<Rightarrow> bool"
  for e :: env and n :: node and tr :: "call list" and s :: ManagerState where
  here: "steps e n tr s n tr s"
| step: "steps e n tr s n1 tr1 s1 \<Longrightarrow> n1 \<noteq> END \<Longrightarrow> graph_step e n1 tr1 s1 = (tr2, Inr (n2, s2))
          \<Longrightarrow> steps e n tr s n2 tr2 s2"

text \<open>
  What an execution for the query \<open>q\<close> passes through, the calls made before it being
  \<open>tr0\<close>.
\<close>

definition reachable ::
  "env \<Rightarrow> call list \<Rightarrow> string \<Rightarrow> node \<Rightarrow> call list \<Rightarrow> ManagerState \<Rightarrow> bool" where
  "reachable e tr0 q n tr s = steps e Initialize tr0 (initial_state q) n tr s"

text \<open>The same executions, computed: where the graph is after \<open>k\<close> steps.\<close>

fun after_steps ::
  "env \<Rightarrow> nat \<Rightarrow> node \<Rightarrow> call list \<Rightarrow> ManagerState \<Rightarrow> (node \<times> call list \<times> ManagerState) option" where
  "after_steps e 0 n tr s = Some (n, tr, s)"
| "after_steps e (Suc k) n tr s =
     (if n = END then None
      else case graph_step e n tr s of
             (tr', Inl ex) \<Rightarrow> None
           | (tr', Inr (n', s')) \<Rightarrow> after_steps e k n' tr' s')"

definition pending_count :: "ManagerState \<Rightarrow> nat" where
  "pending_count s = length (filter (\<lambda>t. status t = PENDING) (tasks s))"

section \<open>api.py\<close>

text \<open>
  The Python objects the handler of \<open>/query\<close> returns, before the web framework serialises
  them: a \<open>str\<close> becomes a JSON string, a \<open>dict\<close> or a pydantic model a JSON object, a
  \<open>list\<close> or a \<open>set\<close> a JSON array.
\<close>

datatype pyobj =
    PyNone
  | PyStr string
  | PyAgentType AgentType
  | PyJson json
  | PyTask AgentTask
  | PyMessage message
  | PyList "pyobj list"
  | PySet "pyobj list"
  | PyDict "(string \<times> pyobj) list"

text \<open>The dict \<open>graph.invoke\<close> returns: the final value of every key of the state.\<close>

definition state_dict :: "ManagerState \<Rightarrow> pyobj" where
  "state_dict s =
     PyDict
       [(''original_query'', PyStr (original_query s)),
        (''tasks'', PyList (map PyTask (tasks s))),
        (''required_agents'', PySet (map PyJson (required_agents s))),
        (''current_agent'', (case current_agent s of None \<Rightarrow> PyNone | Some a \<Rightarrow> PyAgentType a)),
        (''messages'', PyList (map PyMessage (messages s))),
        (''final_output'', PyStr (final_output s))]"

text \<open>\<^verbatim>\<open>return {"result": result}\<close>, where \<open>result\<close> is what \<open>query_manager_agent\<close> returned.\<close>

definition get_items ::
  "env \<Rightarrow> call list \<Rightarrow> string \<Rightarrow> call list \<times> (failure + pyobj)" where
  "get_items e tr req_query =
     (case query_manager_agent e tr req_query of
        (tr', Inl f) \<Rightarrow> (tr', Inl f)
      | (tr', Inr result) \<Rightarrow> (tr', Inr (PyDict [(''result'', state_dict result)])))"

fun dict_get :: "pyobj \<Rightarrow> string \<Rightarrow> pyobj option" where
  "dict_get (PyDict kvs) k = map_of kvs k"
| "dict_get _ k = None"

fun is_str :: "pyobj \<Rightarrow> bool" where
  "is_str (PyStr s) = True"
| "is_str _ = False"

section \<open>Example worlds\<close>

text \<open>
  A verdict as the schema \<open>RequiredAgent\<close> of models.py describes it: an agent type, whether
  it is needed, and a reason.
\<close>

definition verdict :: "AgentType \<Rightarrow> bool \<Rightarrow> json" where
  "verdict a b =
     JObj [(''agent_type'', JStr (agent_value a)), (''needed'', JBool b), (''reason'', JStr ''because'')]"

definition no_world :: env where
  "no_world =
     \<lparr>chain_invoke = (\<lambda>tr q. Inl (LibraryError ''APIConnectionError'')),
      requests_post = (\<lambda>tr url q. Inl (LibraryError ''ConnectionError'')),
      llm_invoke = (\<lambda>tr q text. Inl (LibraryError ''APIConnectionError'')),
      exc_str = (\<lambda>ex. case ex of HTTPError n \<Rightarrow> ''Server Error'' | _ \<Rightarrow> ''Connection refused''),
      value_str = (\<lambda>v. ''None''),
      set_hash = (\<lambda>v. 0)\<rparr>"

text \<open>
  The selection asks for elizaos and goose; the elizaos endpoint answers, the goose
  endpoint returns status 503; the aggregation model answers.
\<close>

definition sample_world :: env where
  "sample_world = no_world
     \<lparr>chain_invoke := (\<lambda>tr q. Inr (JObj [(''agents'',
          JArr [verdict ELIZAOS True, verdict TRON False, verdict GOOSE True])])),
      requests_post := (\<lambda>tr url q.
          if url = ELIZAOS_API_ENDPOINT
          then Inr \<lparr>status_code = 200, json_body = Inr (JObj [(''result'', JStr ''use eliza'')])\<rparr>
          else Inr \<lparr>status_code = 503, json_body = Inl (LibraryError ''JSONDecodeError'')\<rparr>),
      llm_invoke := (\<lambda>tr q text. Inr ''merged answer'')\<rparr>"

text \<open>Every endpoint answers with status 300 (Multiple Choices) and a JSON body.\<close>

definition redirect_response :: http_response where
  "redirect_response = \<lparr>status_code = 300, json_body = Inr (JObj [(''result'', JStr ''ok'')])\<rparr>"

definition redirect_world :: env where
  "redirect_world = sample_world\<lparr>requests_post := (\<lambda>tr url q. Inr redirect_response)\<rparr>"

text \<open>The selection chain returns JSON that has no \<open>agents\<close> key.\<close>

definition garbled_world :: env where
  "garbled_world = sample_world
     \<lparr>chain_invoke := (\<lambda>tr q. Inr (JObj [(''answer'', JStr ''elizaos'')]))\<rparr>"

text \<open>The selection asks for an agent under a name that is not the string of an agent type.\<close>

definition unknown_agent_world :: env where
  "unknown_agent_world = sample_world
     \<lparr>chain_invoke := (\<lambda>tr q. Inr (JObj [(''agents'',
          JArr [JObj [(''agent_type'', JStr ''ElizaOS''), (''needed'', JBool True),
                      (''reason'', JStr ''because'')]])]))\<rparr>"

text \<open>As \<open>sample_world\<close>, but the aggregation model cannot be reached.\<close>

definition silent_model_world :: env where
  "silent_model_world = sample_world
     \<lparr>llm_invoke := (\<lambda>tr q text. Inl (LibraryError ''APIConnectionError''))\<rparr>"

text \<open>The selection finds that no agent is needed.\<close>

definition idle_world :: env where
  "idle_world = sample_world
     \<lparr>chain_invoke := (\<lambda>tr q. Inr (JObj [(''agents'',
          JArr [verdict ELIZAOS False, verdict TRON False, verdict GOOSE False])]))\<rparr>"


text \<open>The state in which the graph ends in \<open>sample_world\<close> for the query \<open>hi\<close>.\<close>

definition sample_final_state :: ManagerState where
  "sample_final_state =
     \<lparr>original_query = ''hi'',
      tasks = [\<lparr>agent_type = ELIZAOS, query = ''hi'', status = COMPLETED,
                 response = JStr ''use eliza'', error = None\<rparr>,
               \<lparr>agent_type = GOOSE, query = ''hi'', status = FAILED,
                 response = JNull, error = Some ''Server Error''\<rparr>],
      required_agents = [JStr ''elizaos'', JStr ''goose''],
      current_agent = None,
      messages = replicate 64 (HumanMessage ''hi'') @ [answer_message ''merged answer''],
      final_output = ''merged answer''\<rparr>"

text \<open>
  The selection answers with the strings \<open>false\<close> and \<open>no\<close>, and with an empty string, where
  the schema asks for a boolean.
\<close>

definition stringly_verdicts :: "json list" where
  "stringly_verdicts =
     [JObj [(''agent_type'', JStr ''elizaos''), (''needed'', JStr ''false''), (''reason'', JStr ''because'')],
      JObj [(''agent_type'', JStr ''tron''), (''needed'', JStr ''no''), (''reason'', JStr ''because'')],
      JObj [(''agent_type'', JStr ''goose''), (''needed'', JStr []), (''reason'', JStr ''because'')]]"

definition stringly_world :: env where
  "stringly_world = sample_world
     \<lparr>chain_invoke := (\<lambda>tr q. Inr (JObj [(''agents'', JArr stringly_verdicts)]))\<rparr>"

text \<open>
  The calls made and the state held when \<open>finalize\<close> is about to run, in \<open>sample_world\<close> and
  in \<open>silent_model_world\<close>, for the query \<open>hi\<close>.
\<close>

definition sample_finalize_calls :: "call list" where
  "sample_finalize_calls =
     [SelectorCall ''hi'', HttpPost ELIZAOS_API_ENDPOINT ''hi'', HttpPost GOOSE_API_ENDPOINT ''hi'']"

definition sample_finalize_state :: ManagerState where
  "sample_finalize_state =
     \<lparr>original_query = ''hi'',
      tasks = [\<lparr>agent_type = ELIZAOS, query = ''hi'', status = COMPLETED,
                 response = JStr ''use eliza'', error = None\<rparr>,
               \<lparr>agent_type = GOOSE, query = ''hi'', status = FAILED,
                 response = JNull, error = Some ''Server Error''\<rparr>],
      required_agents = [JStr ''elizaos'', JStr ''goose''],
      current_agent = None,
      messages = replicate 64 (HumanMessage ''hi''),
      final_output = []\<rparr>"

section \<open>The verdicts that select an agent\<close>

text \<open>
  The values under \<open>agent_type\<close> of the verdicts whose value under \<open>needed\<close> counts as true
  in a Python condition, in the order of the verdicts.
\<close>

fun needed_types :: "json list \<Rightarrow> json list" where
  "needed_types [] = []"
| "needed_types (item # rest) =
     (case subscript item ''needed'' of
        Inl ex \<Rightarrow> needed_types rest
      | Inr needed \<Rightarrow>
          if truthy needed then
            (case subscript item ''agent_type'' of
               Inl ex \<Rightarrow> needed_types rest
             | Inr a \<Rightarrow> a # needed_types rest)
          else needed_types rest)"

section \<open>The text for the aggregation, in the words of the specification\<close>



section \<open>What holds along every execution\<close>

text \<open>
  The invariant of the graph for the query \<open>q\<close>, started after the calls \<open>tr0\<close>: the query
  is kept, every task carries it, no two tasks are for the same agent type, no task is
  \<open>IN_PROGRESS\<close>, the node \<open>process_with_agent\<close> runs with the first pending task selected,
  \<open>finalize\<close> runs with no task pending, and a request has been posted for every task that is
  no longer pending.
\<close>

definition graph_inv :: "call list \<Rightarrow> string \<Rightarrow> node \<Rightarrow> call list \<Rightarrow> ManagerState \<Rightarrow> bool" where
  "graph_inv tr0 q n tr s \<longleftrightarrow>
     original_query s = q \<and>
     (\<forall>t \<in> set (tasks s). query t = q \<and> status t \<noteq> IN_PROGRESS) \<and>
     distinct (map agent_type (tasks s)) \<and>
     (n \<noteq> END \<longrightarrow> final_output s = []) \<and>
     (n = Initialize \<longrightarrow> tasks s = [] \<and> tr = tr0) \<and>
     (n = ProcessWithAgent \<longrightarrow>
        (\<exists>t. find (\<lambda>t. status t = PENDING) (tasks s) = Some t \<and> current_agent s = Some (agent_type t))) \<and>
     (n = Finalize \<longrightarrow> should_continue s = ''finish'') \<and>
     (n = Finalize \<or> n = END \<longrightarrow> (\<forall>t \<in> set (tasks s). status t \<noteq> PENDING)) \<and>
     (\<exists>calls. tr = tr0 @ calls \<and>
        (\<forall>t \<in> set (tasks s). status t \<noteq> PENDING \<longrightarrow>
           HttpPost (framework_agents (agent_type t)) q \<in> set calls))"

text \<open>
  What the record of calls says about the tasks: the tasks that are no longer pending come
  first, and the requests posted since the execution began are one for each of them, in their
  order.
\<close>

fun is_post :: "call \<Rightarrow> bool" where
  "is_post (HttpPost url q) = True"
| "is_post _ = False"

definition dispatch_inv :: "call list \<Rightarrow> string \<Rightarrow> call list \<Rightarrow> ManagerState \<Rightarrow> bool" where
  "dispatch_inv tr0 q tr s \<longleftrightarrow>
     (\<exists>done todo calls.
        tasks s = done @ todo \<and> list_all (\<lambda>t. status t \<noteq> PENDING) done
        \<and> list_all (\<lambda>t. status t = PENDING) todo \<and> tr = tr0 @ calls
        \<and> filter is_post calls = map (\<lambda>t. HttpPost (framework_agents (agent_type t)) q) done)"

section \<open>Lemmas: the selection and the tasks it creates\<close>

lemma py_eq_refl: "py_eq x x"
  by (cases x) simp_all

lemma distinct_set_add: "distinct S \<Longrightarrow> distinct (set_add x S)"
  by (auto simp: set_add_def list_ex_iff py_eq_refl)

lemma distinct_collect_required:
  "collect_required items S = Inr R \<Longrightarrow> distinct S \<Longrightarrow> distinct R"
  by (induction items arbitrary: S)
     (auto split: sum.splits if_splits simp: distinct_set_add)

lemma distinct_all_agent_types: "distinct all_agent_types"
  by (simp add: all_agent_types_def)

lemma distinct_determine_required_agents:
  "distinct (snd (determine_required_agents e tr q))"
  by (auto simp: determine_required_agents_def selection_try_def bind_exc_def
        distinct_all_agent_types
      split: sum.splits dest: distinct_collect_required)

lemma validate_agent_type_Inr:
  "validate_agent_type v = Inr a \<Longrightarrow> v = JStr (agent_value a)"
  by (auto simp: validate_agent_type_def split: if_splits)

lemma new_AgentTask_Inr:
  "new_AgentTask v q = Inr t \<Longrightarrow>
     v = JStr (agent_value (agent_type t)) \<and> query t = q \<and> status t = PENDING
     \<and> response t = JNull \<and> error t = None"
  by (auto simp: new_AgentTask_def bind_exc_def split: sum.splits dest: validate_agent_type_Inr)

lemma make_tasks_Inr:
  "make_tasks vs q = Inr ts \<Longrightarrow>
     vs = map (\<lambda>t. JStr (agent_value (agent_type t))) ts
     \<and> (\<forall>t \<in> set ts. query t = q \<and> status t = PENDING \<and> response t = JNull \<and> error t = None)"
  by (induction vs arbitrary: ts) (auto split: sum.splits dest: new_AgentTask_Inr)

lemma make_tasks_distinct:
  assumes "make_tasks vs q = Inr ts" "distinct vs"
  shows "distinct (map agent_type ts)"
proof -
  have "vs = map (\<lambda>a. JStr (agent_value a)) (map agent_type ts)"
    using make_tasks_Inr[OF assms(1)] by simp
  with assms(2) show ?thesis by (metis distinct_map)
qed

section \<open>Lemmas: the invariant of the graph\<close>

lemma graph_inv_start: "graph_inv tr0 q Initialize tr0 (initial_state q)"
  by (simp add: graph_inv_def initial_state_def)

lemma apply_select_next_agent:
  "apply_update s (select_next_agent s) =
     s\<lparr>current_agent := map_option agent_type (find (\<lambda>t. status t = PENDING) (tasks s)),
       messages := messages s @ messages s, final_output := final_output s @ final_output s\<rparr>"
  by (simp add: apply_update_def select_next_agent_def state_copy_def split: option.splits)

lemma find_by_key_distinct:
  "distinct (map f xs) \<Longrightarrow> t \<in> set xs \<Longrightarrow> find (\<lambda>x. f x = f t) xs = Some t"
  by (induction xs) (auto simp: image_iff)

lemma find_Some_mem: "find P xs = Some t \<Longrightarrow> t \<in> set xs \<and> P t"
  by (auto simp: find_Some_iff)

lemma agent_type_record_result [simp]: "agent_type (record_result t r) = agent_type t"
  by (simp add: record_result_def split: agent_result.splits)

lemma query_record_result [simp]: "query (record_result t r) = query t"
  by (simp add: record_result_def split: agent_result.splits)

lemma status_record_result: "status (record_result t r) = COMPLETED \<or> status (record_result t r) = FAILED"
  by (simp add: record_result_def split: agent_result.splits)

lemma process_with_agent_selected:
  assumes "current_agent s = Some (agent_type t)" "t \<in> set (tasks s)"
    and "distinct (map agent_type (tasks s))"
  shows "process_with_agent e tr s =
     (tr @ [HttpPost (framework_agents (agent_type t)) (query t)],
      Inr ((state_copy s)\<lparr>upd_tasks := Some
        (map (\<lambda>x. if agent_type x \<noteq> agent_type t then x
                   else record_result t (snd (BaseAgent_process e tr (framework_agents (agent_type t)) (query t))))
             (tasks s))\<rparr>))"
  using find_by_key_distinct[OF assms(3) assms(2)] assms(1)
  by (simp add: process_with_agent_def manager_process_with_agent_def BaseAgent_process_def)

lemma apply_state_copy_tasks:
  "apply_update s ((state_copy s)\<lparr>upd_tasks := Some ts\<rparr>) =
     s\<lparr>tasks := ts, messages := messages s @ messages s, final_output := final_output s @ final_output s\<rparr>"
  by (simp add: apply_update_def state_copy_def)

lemma graph_inv_step:
  assumes inv: "graph_inv tr0 q n tr s" and "n \<noteq> END"
    and st: "graph_step e n tr s = (tr', Inr (n', s'))"
  shows "graph_inv tr0 q n' tr' s'"
proof (cases n)
  case Initialize
  obtain tr1 req where d: "determine_required_agents e tr (original_query s) = (tr1, req)"
    by (cases "determine_required_agents e tr (original_query s)")
  have tr1: "tr1 = tr @ [SelectorCall (original_query s)]"
    using d by (auto simp: determine_required_agents_def)
  have dreq: "distinct req"
    using distinct_determine_required_agents[of e tr "original_query s"] d by simp
  from st Initialize d obtain ts where
    mk: "make_tasks (set_iter e req) (original_query s) = Inr ts"
    and s': "s' = apply_update s ((state_copy s)\<lparr>upd_tasks := Some ts, upd_required_agents := Some req,
                                       upd_current_agent := Some None\<rparr>)"
    and n': "n' = SelectNextAgent" and tr': "tr' = tr1"
    by (auto simp: graph_step_def initialize_def bind_exc_def split: sum.splits)
  have "distinct (set_iter e req)" using dreq by (simp add: set_iter_def)
  then have dts: "distinct (map agent_type ts)" using mk make_tasks_distinct by blast
  have pend: "\<forall>t \<in> set ts. query t = original_query s \<and> status t = PENDING"
    using make_tasks_Inr[OF mk] by blast
  show ?thesis
    using inv Initialize dts pend
    by (auto simp: graph_inv_def s' n' tr' tr1 apply_update_def state_copy_def)
next
  case SelectNextAgent
  have s': "s' = apply_update s (select_next_agent s)"
    and tr': "tr' = tr"
    and n': "n' = (if should_continue s' = ''finish'' then Finalize else ProcessWithAgent)"
    using st SelectNextAgent by (auto simp: graph_step_def bind_exc_def)
  show ?thesis
  proof (cases "find (\<lambda>t. status t = PENDING) (tasks s)")
    case None
    then have np: "\<forall>t \<in> set (tasks s). status t \<noteq> PENDING"
      by (auto simp: find_None_iff)
    then have sc: "should_continue s' = ''finish''"
      using None by (simp add: s' apply_select_next_agent should_continue_def list_all_iff)
    then have "n' = Finalize" using n' by simp
    then show ?thesis
      using inv SelectNextAgent np None sc
      by (auto simp: graph_inv_def tr' s' [unfolded apply_select_next_agent])
  next
    case (Some t)
    then have "should_continue s' = ''continue''"
      by (simp add: s' apply_select_next_agent should_continue_def)
    then have "n' = ProcessWithAgent" using n' by simp
    then show ?thesis
      using inv SelectNextAgent Some
      by (auto simp: graph_inv_def s' tr' apply_select_next_agent)
  qed
next
  case ProcessWithAgent
  from inv ProcessWithAgent obtain t where
    ft: "find (\<lambda>t. status t = PENDING) (tasks s) = Some t" and cur: "current_agent s = Some (agent_type t)"
    by (auto simp: graph_inv_def)
  have tin: "t \<in> set (tasks s)" and tp: "status t = PENDING"
    using find_Some_mem[OF ft] by auto
  have dis: "distinct (map agent_type (tasks s))" using inv by (simp add: graph_inv_def)
  have qt: "query t = q" using inv tin by (simp add: graph_inv_def)
  define r where "r = snd (BaseAgent_process e tr (framework_agents (agent_type t)) (query t))"
  define ts where "ts = map (\<lambda>x. if agent_type x \<noteq> agent_type t then x else record_result t r) (tasks s)"
  have pw: "process_with_agent e tr s =
     (tr @ [HttpPost (framework_agents (agent_type t)) q], Inr ((state_copy s)\<lparr>upd_tasks := Some ts\<rparr>))"
    using process_with_agent_selected[OF cur tin dis, of e tr] qt by (simp add: ts_def r_def)
  have s': "s' = s\<lparr>tasks := ts, messages := messages s @ messages s, final_output := final_output s @ final_output s\<rparr>"
    and tr': "tr' = tr @ [HttpPost (framework_agents (agent_type t)) q]"
    and n': "n' = SelectNextAgent"
    using st ProcessWithAgent pw by (auto simp: graph_step_def bind_exc_def apply_state_copy_tasks)
  have mt: "map agent_type ts = map agent_type (tasks s)"
    by (simp add: ts_def comp_def cong: map_cong)
  have el: "\<forall>x \<in> set ts. x \<in> set (tasks s) \<and> agent_type x \<noteq> agent_type t \<or> x = record_result t r"
    by (auto simp: ts_def)
  have rr: "status (record_result t r) \<noteq> IN_PROGRESS"
    using status_record_result[of t r] by auto
  from inv obtain calls where c: "tr = tr0 @ calls"
    and cp: "\<forall>x \<in> set (tasks s). status x \<noteq> PENDING \<longrightarrow> HttpPost (framework_agents (agent_type x)) q \<in> set calls"
    by (auto simp: graph_inv_def)
  have "tr' = tr0 @ (calls @ [HttpPost (framework_agents (agent_type t)) q])"
    by (simp add: tr' c)
  moreover have "\<forall>x \<in> set ts. status x \<noteq> PENDING \<longrightarrow>
      HttpPost (framework_agents (agent_type x)) q \<in> set (calls @ [HttpPost (framework_agents (agent_type t)) q])"
    using el cp by auto
  ultimately have tracepart: "\<exists>calls. tr' = tr0 @ calls \<and>
        (\<forall>x \<in> set ts. status x \<noteq> PENDING \<longrightarrow> HttpPost (framework_agents (agent_type x)) q \<in> set calls)"
    by blast
  have "\<forall>x \<in> set ts. query x = q \<and> status x \<noteq> IN_PROGRESS"
    using el inv qt rr by (auto simp: graph_inv_def)
  then show ?thesis
    using inv tracepart mt dis ProcessWithAgent
    by (simp add: graph_inv_def s' n')
next
  case Finalize
  obtain r where f: "finalize e tr s = (tr', r)"
    using st Finalize by (auto simp: graph_step_def split: prod.splits)
  from inv obtain calls where c: "tr = tr0 @ calls"
    and cp: "\<forall>x \<in> set (tasks s). status x \<noteq> PENDING \<longrightarrow> HttpPost (framework_agents (agent_type x)) q \<in> set calls"
    by (auto simp: graph_inv_def)
  have "tr' = tr \<or> (\<exists>c. tr' = tr @ [c])"
    using f by (auto simp: finalize_def Let_def aggregate_responses_def split: if_splits)
  then have "\<exists>calls'. tr' = tr0 @ calls' \<and> set calls \<subseteq> set calls'"
    using c by auto
  then have tracepart: "\<exists>calls. tr' = tr0 @ calls \<and>
        (\<forall>x \<in> set (tasks s). status x \<noteq> PENDING \<longrightarrow> HttpPost (framework_agents (agent_type x)) q \<in> set calls)"
    using cp by blast
  from st Finalize f obtain u where "r = Inr u" and s': "s' = apply_update s u" and n': "n' = END"
    by (auto simp: graph_step_def bind_exc_def split: sum.splits)
  then have "upd_tasks u = None \<and> upd_original_query u = None"
    using f by (auto simp: finalize_def Let_def bind_exc_def empty_update_def split: if_splits sum.splits prod.splits)
  then have "tasks s' = tasks s" "original_query s' = original_query s"
    by (simp_all add: s' apply_update_def)
  then show ?thesis
    using inv Finalize tracepart by (simp add: graph_inv_def n')
next
  case END
  with assms show ?thesis by simp
qed

lemma steps_inv:
  "steps e n tr s n' tr' s' \<Longrightarrow> graph_inv tr0 q n tr s \<Longrightarrow> graph_inv tr0 q n' tr' s'"
  by (induction rule: steps.induct) (auto intro: graph_inv_step)

lemma reachable_inv: "reachable e tr0 q n tr s \<Longrightarrow> graph_inv tr0 q n tr s"
  unfolding reachable_def using steps_inv graph_inv_start by blast

section \<open>Lemmas: executions\<close>

lemma steps_front:
  assumes "steps e n1 tr1 s1 n' tr' s'"
  shows "n \<noteq> END \<Longrightarrow> graph_step e n tr s = (tr1, Inr (n1, s1)) \<Longrightarrow> steps e n tr s n' tr' s'"
  using assms
proof (induction rule: steps.induct)
  case here
  then show ?case using steps.step[OF steps.here] by blast
next
  case (step n2 tr2 s2 tr3 n3 s3)
  then show ?case using steps.step by blast
qed

lemma after_steps_steps:
  "after_steps e k n tr s = Some (n', tr', s') \<Longrightarrow> steps e n tr s n' tr' s'"
proof (induction k arbitrary: n tr s)
  case 0
  then show ?case by (auto intro: steps.here)
next
  case (Suc k)
  then show ?case
    by (auto split: if_splits prod.splits sum.splits intro: steps_front)
qed

lemma run_graph_steps:
  "run_graph e fuel n tr s = (tr', Inr s') \<Longrightarrow> steps e n tr s END tr' s'"
proof (induction fuel arbitrary: n tr s)
  case 0
  then show ?case by (cases n) (auto intro: steps.here)
next
  case (Suc fuel)
  show ?case
  proof (cases "n = END")
    case True
    with Suc.prems show ?thesis by (auto intro: steps.here)
  next
    case False
    obtain tr1 r where g: "graph_step e n tr s = (tr1, r)" by (cases "graph_step e n tr s")
    from False have rg: "run_graph e (Suc fuel) n tr s =
       (case graph_step e n tr s of (tr', Inl ex) \<Rightarrow> (tr', Inl (Raised ex))
        | (tr', Inr (n', s')) \<Rightarrow> run_graph e fuel n' tr' s')"
      by (cases n) simp_all
    with Suc.prems g obtain n1 s1 where r: "r = Inr (n1, s1)"
      and rest: "run_graph e fuel n1 tr1 s1 = (tr', Inr s')"
      by (cases r) (auto split: prod.splits)
    from Suc.IH[OF rest] have "steps e n1 tr1 s1 END tr' s'" .
    then show ?thesis using steps_front False g r by blast
  qed
qed

lemma run_graph_not_END:
  "n \<noteq> END \<Longrightarrow> run_graph e (Suc fuel) n tr s =
       (case graph_step e n tr s of (tr', Inl ex) \<Rightarrow> (tr', Inl (Raised ex))
        | (tr', Inr (n', s')) \<Rightarrow> run_graph e fuel n' tr' s')"
  by (cases n) simp_all

section \<open>Lemmas: counting tasks\<close>

lemma UNIV_AgentType: "(UNIV :: AgentType set) = {ELIZAOS, TRON, GOOSE}"
  using AgentType.exhaust by auto

lemma distinct_agent_types_length:
  assumes "distinct (map agent_type ts)"
  shows "length ts \<le> 3"
proof -
  have "length ts = card (set (map agent_type ts))"
    using distinct_card[OF assms] by simp
  also have "\<dots> \<le> card (UNIV :: AgentType set)"
  proof (rule card_mono)
    show "finite (UNIV :: AgentType set)" by (simp add: UNIV_AgentType)
    show "set (map agent_type ts) \<subseteq> UNIV" by (rule subset_UNIV)
  qed
  also have "\<dots> = 3" by (simp add: UNIV_AgentType)
  finally show ?thesis .
qed

lemma pending_count_le: "pending_count s \<le> length (tasks s)"
  by (simp add: pending_count_def)

text \<open>Replacing the one pending task of an agent type by a task that is not pending.\<close>

lemma filter_map_replace:
  assumes "distinct (map f xs)" "t \<in> set xs" "P t" "\<not> P t'"
  shows "Suc (length (filter P (map (\<lambda>x. if f x \<noteq> f t then x else t') xs))) = length (filter P xs)"
  using assms
proof (induction xs)
  case Nil
  then show ?case by simp
next
  case (Cons a xs)
  show ?case
  proof (cases "a = t")
    case True
    have "\<forall>x \<in> set xs. f x \<noteq> f t" using Cons.prems(1) True by (auto simp: image_iff)
    then have "map (\<lambda>x. if f x \<noteq> f t then x else t') xs = xs"
      by (simp add: map_idI)
    then show ?thesis using True Cons.prems by simp
  next
    case False
    then have tin: "t \<in> set xs" using Cons.prems by simp
    then have "f a \<noteq> f t" using Cons.prems(1) by (auto simp: image_iff)
    moreover have "Suc (length (filter P (map (\<lambda>x. if f x \<noteq> f t then x else t') xs))) = length (filter P xs)"
      using Cons.IH Cons.prems tin by simp
    ultimately show ?thesis by simp
  qed
qed

section \<open>Lemmas: the steps of the loop\<close>

lemma after_steps_reachable:
  "after_steps e k Initialize tr0 (initial_state q) = Some (n, tr, s) \<Longrightarrow> reachable e tr0 q n tr s"
  unfolding reachable_def by (rule after_steps_steps)

lemma process_step:
  assumes inv: "graph_inv tr0 q ProcessWithAgent tr s"
  shows "\<exists>t r. find (\<lambda>t. status t = PENDING) (tasks s) = Some t
           \<and> current_agent s = Some (agent_type t)
           \<and> r = snd (BaseAgent_process e tr (framework_agents (agent_type t)) q)
           \<and> graph_step e ProcessWithAgent tr s =
               (tr @ [HttpPost (framework_agents (agent_type t)) q],
                Inr (SelectNextAgent,
                     s\<lparr>tasks := map (\<lambda>x. if agent_type x \<noteq> agent_type t then x else record_result t r) (tasks s),
                       messages := messages s @ messages s,
                       final_output := final_output s @ final_output s\<rparr>))"
proof -
  from inv obtain t where
    ft: "find (\<lambda>t. status t = PENDING) (tasks s) = Some t" and cur: "current_agent s = Some (agent_type t)"
    by (auto simp: graph_inv_def)
  have tin: "t \<in> set (tasks s)" using find_Some_mem[OF ft] by auto
  have dis: "distinct (map agent_type (tasks s))" using inv by (simp add: graph_inv_def)
  have qt: "query t = q" using inv tin by (simp add: graph_inv_def)
  show ?thesis
    using process_with_agent_selected[OF cur tin dis, of e tr] qt ft cur
    by (simp add: graph_step_def bind_exc_def apply_state_copy_tasks)
qed

lemma distinct_map_eq:
  "distinct (map f xs) \<Longrightarrow> x \<in> set xs \<Longrightarrow> y \<in> set xs \<Longrightarrow> f x = f y \<Longrightarrow> x = y"
  by (meson distinct_map inj_onD)

lemma graph_step_tasks:
  assumes inv: "graph_inv tr0 q n tr s" and ne: "n \<noteq> END"
    and st: "graph_step e n tr s = (tr', Inr (n', s'))" and i: "i < length (tasks s)"
  shows "i < length (tasks s') \<and>
         (tasks s' ! i = tasks s ! i \<or>
          status (tasks s ! i) = PENDING \<and>
          (status (tasks s' ! i) = COMPLETED \<or> status (tasks s' ! i) = FAILED))"
proof (cases n)
  case Initialize
  with inv i show ?thesis by (simp add: graph_inv_def)
next
  case SelectNextAgent
  with st have "s' = apply_update s (select_next_agent s)"
    by (auto simp: graph_step_def bind_exc_def)
  then show ?thesis using i by (simp add: apply_select_next_agent)
next
  case ProcessWithAgent
  from process_step[OF inv[unfolded ProcessWithAgent], of e] obtain t r where
    ft: "find (\<lambda>t. status t = PENDING) (tasks s) = Some t"
    and gs: "graph_step e ProcessWithAgent tr s =
               (tr @ [HttpPost (framework_agents (agent_type t)) q],
                Inr (SelectNextAgent,
                     s\<lparr>tasks := map (\<lambda>x. if agent_type x \<noteq> agent_type t then x else record_result t r) (tasks s),
                       messages := messages s @ messages s,
                       final_output := final_output s @ final_output s\<rparr>))"
    by blast
  have tin: "t \<in> set (tasks s)" and tp: "status t = PENDING"
    using find_Some_mem[OF ft] by auto
  have dis: "distinct (map agent_type (tasks s))" using inv by (simp add: graph_inv_def)
  from st gs ProcessWithAgent have
    ts': "tasks s' = map (\<lambda>x. if agent_type x \<noteq> agent_type t then x else record_result t r) (tasks s)"
    by auto
  show ?thesis
  proof (cases "agent_type (tasks s ! i) = agent_type t")
    case True
    then have "tasks s ! i = t"
      using distinct_map_eq[OF dis _ tin] i by simp
    then show ?thesis
      using i tp status_record_result[of t r] by (simp add: ts')
  next
    case False
    then show ?thesis using i by (simp add: ts')
  qed
next
  case Finalize
  from st Finalize obtain u where f: "snd (finalize e tr s) = Inr u" and s': "s' = apply_update s u"
    by (auto simp: graph_step_def bind_exc_def split: sum.splits prod.splits)
  then have "upd_tasks u = None"
    by (auto simp: finalize_def Let_def bind_exc_def empty_update_def split: if_splits sum.splits prod.splits)
  then show ?thesis using i by (simp add: s' apply_update_def)
next
  case END
  with ne show ?thesis by simp
qed

lemma steps_tasks:
  assumes "steps e n tr s n' tr' s'" and "graph_inv tr0 q n tr s" and "i < length (tasks s)"
  shows "i < length (tasks s') \<and>
         (tasks s' ! i = tasks s ! i \<or>
          status (tasks s ! i) = PENDING \<and>
          (status (tasks s' ! i) = COMPLETED \<or> status (tasks s' ! i) = FAILED))"
  using assms
proof (induction rule: steps.induct)
  case here
  then show ?case by simp
next
  case (step n1 tr1 s1 tr2 n2 s2)
  have inv1: "graph_inv tr0 q n1 tr1 s1"
    using steps_inv[OF step.hyps(1) step.prems(1)] .
  have ih: "i < length (tasks s1) \<and>
         (tasks s1 ! i = tasks s ! i \<or>
          status (tasks s ! i) = PENDING \<and>
          (status (tasks s1 ! i) = COMPLETED \<or> status (tasks s1 ! i) = FAILED))"
    using step.IH step.prems by blast
  then have i1: "i < length (tasks s1)" by simp
  from graph_step_tasks[OF inv1 step.hyps(2) step.hyps(3) i1]
  have one: "i < length (tasks s2) \<and>
         (tasks s2 ! i = tasks s1 ! i \<or>
          status (tasks s1 ! i) = PENDING \<and>
          (status (tasks s2 ! i) = COMPLETED \<or> status (tasks s2 ! i) = FAILED))" .
  show ?case using ih one by auto
qed

lemma select_step:
  "graph_step e SelectNextAgent tr s =
     (tr, Inr (if find (\<lambda>t. status t = PENDING) (tasks s) = None then Finalize else ProcessWithAgent,
               apply_update s (select_next_agent s)))"
proof (cases "find (\<lambda>t. status t = PENDING) (tasks s)")
  case None
  then have "\<forall>t \<in> set (tasks s). status t \<noteq> PENDING" by (auto simp: find_None_iff)
  then show ?thesis using None
    by (simp add: graph_step_def bind_exc_def apply_select_next_agent should_continue_def list_all_iff)
next
  case (Some t)
  then show ?thesis
    by (simp add: graph_step_def bind_exc_def apply_select_next_agent should_continue_def)
qed

lemma pending_count_select [simp]:
  "pending_count (apply_update s (select_next_agent s)) = pending_count s"
  by (simp add: apply_select_next_agent pending_count_def)

lemma process_step_count:
  assumes inv: "graph_inv tr0 q ProcessWithAgent tr s"
    and st: "graph_step e ProcessWithAgent tr s = (tr', Inr (n', s'))"
  shows "Suc (pending_count s') = pending_count s"
proof -
  from process_step[OF inv, of e] obtain t r where
    ft: "find (\<lambda>t. status t = PENDING) (tasks s) = Some t"
    and gs: "graph_step e ProcessWithAgent tr s =
               (tr @ [HttpPost (framework_agents (agent_type t)) q],
                Inr (SelectNextAgent,
                     s\<lparr>tasks := map (\<lambda>x. if agent_type x \<noteq> agent_type t then x else record_result t r) (tasks s),
                       messages := messages s @ messages s,
                       final_output := final_output s @ final_output s\<rparr>))"
    by blast
  from st gs have
    ts': "tasks s' = map (\<lambda>x. if agent_type x \<noteq> agent_type t then x else record_result t r) (tasks s)"
    by auto
  have tin: "t \<in> set (tasks s)" and tp: "status t = PENDING"
    using find_Some_mem[OF ft] by auto
  have dis: "distinct (map agent_type (tasks s))" using inv by (simp add: graph_inv_def)
  have np: "\<not> status (record_result t r) = PENDING"
    using status_record_result[of t r] by auto
  show ?thesis
    unfolding pending_count_def ts'
    using filter_map_replace[OF dis tin, of "\<lambda>t. status t = PENDING" "record_result t r"] tp np
    by simp
qed

lemma finalize_step:
  "graph_step e Finalize tr s = (tr', Inr (n', s')) \<Longrightarrow> n' = END"
  by (auto simp: graph_step_def bind_exc_def split: prod.splits sum.splits)

lemma pending_count_0_find:
  "pending_count s = 0 \<longleftrightarrow> find (\<lambda>t. status t = PENDING) (tasks s) = None"
  by (auto simp: pending_count_def find_None_iff filter_empty_conv)

lemma run_graph_enough_fuel:
  "graph_inv tr0 q SelectNextAgent tr s \<Longrightarrow> 2 * pending_count s + 2 \<le> fuel \<Longrightarrow>
     snd (run_graph e fuel SelectNextAgent tr s) \<noteq> Inl GraphRecursionError"
proof (induction "pending_count s" arbitrary: fuel tr s)
  case 0
  then have "2 \<le> fuel" by simp
  then obtain f2 where fuel: "fuel = Suc (Suc f2)"
    by (cases fuel; simp; rename_tac f1; case_tac f1; simp)
  have fn: "find (\<lambda>t. status t = PENDING) (tasks s) = None"
    using 0(1) pending_count_0_find by simp
  have r1: "run_graph e fuel SelectNextAgent tr s =
        run_graph e (Suc f2) Finalize tr (apply_update s (select_next_agent s))"
    by (simp add: fuel select_step fn)
  show ?case
  proof (cases "graph_step e Finalize tr (apply_update s (select_next_agent s))")
    case (Pair tr1 r)
    show ?thesis
    proof (cases r)
      case (Inl ex)
      then show ?thesis using r1 Pair by simp
    next
      case (Inr c)
      then obtain n' s' where c: "c = (n', s')" by (cases c)
      then have "n' = END" using finalize_step Pair Inr by blast
      then show ?thesis using r1 Pair Inr c by simp
    qed
  qed
next
  case (Suc k)
  from Suc(2) Suc.prems(2) have "2 * k + 4 \<le> fuel" by simp
  then obtain f2 where fuel: "fuel = Suc (Suc f2)" and f2: "2 * k + 2 \<le> f2"
    by (cases fuel; simp; rename_tac f1; case_tac f1; simp)
  have fn: "find (\<lambda>t. status t = PENDING) (tasks s) \<noteq> None"
    using Suc(2) pending_count_0_find[of s] by simp
  define s1 where "s1 = apply_update s (select_next_agent s)"
  have gs: "graph_step e SelectNextAgent tr s = (tr, Inr (ProcessWithAgent, s1))"
    using fn by (simp add: select_step s1_def)
  have inv1: "graph_inv tr0 q ProcessWithAgent tr s1"
    using graph_inv_step[OF Suc.prems(1) _ gs] by simp
  from process_step[OF inv1, of e] obtain tr2 s2 where
    ps: "graph_step e ProcessWithAgent tr s1 = (tr2, Inr (SelectNextAgent, s2))"
    by blast
  have inv2: "graph_inv tr0 q SelectNextAgent tr2 s2"
    using graph_inv_step[OF inv1 _ ps] by simp
  have "Suc (pending_count s2) = pending_count s1"
    using process_step_count[OF inv1 ps] .
  then have k: "k = pending_count s2" using Suc(2) by (simp add: s1_def)
  have "run_graph e fuel SelectNextAgent tr s = run_graph e f2 SelectNextAgent tr2 s2"
    by (simp add: fuel gs ps)
  moreover have "snd (run_graph e f2 SelectNextAgent tr2 s2) \<noteq> Inl GraphRecursionError"
    using Suc(1)[OF k inv2] f2 k by simp
  ultimately show ?case by simp
qed

lemma pending_count_le_3:
  "graph_inv tr0 q n tr s \<Longrightarrow> pending_count s \<le> 3"
  using distinct_agent_types_length[of "tasks s"] pending_count_le[of s]
  by (simp add: graph_inv_def)

lemma run_framework_manager_no_recursion_error:
  "snd (run_framework_manager e tr0 q) \<noteq> Inl GraphRecursionError"
proof (cases "graph_step e Initialize tr0 (initial_state q)")
  case (Pair tr1 r)
  have rl: "recursion_limit = Suc 24" by (simp add: recursion_limit_def)
  have rg: "run_framework_manager e tr0 q =
      (case graph_step e Initialize tr0 (initial_state q) of
         (tr', Inl ex) \<Rightarrow> (tr', Inl (Raised ex))
       | (tr', Inr (n', s')) \<Rightarrow> run_graph e 24 n' tr' s')"
    unfolding run_framework_manager_def rl by (rule run_graph_not_END) simp
  show ?thesis
  proof (cases r)
    case (Inl ex)
    then show ?thesis using Pair by (simp add: rg)
  next
    case (Inr c)
    then obtain n1 s1 where gs: "graph_step e Initialize tr0 (initial_state q) = (tr1, Inr (n1, s1))"
      using Pair by (cases c) auto
    have inv1: "graph_inv tr0 q n1 tr1 s1"
      using graph_inv_step[OF graph_inv_start _ gs] by simp
    have n1: "n1 = SelectNextAgent"
      using gs by (auto simp: graph_step_def bind_exc_def split: prod.splits sum.splits)
    have "2 * pending_count s1 + 2 \<le> 24"
      using pending_count_le_3[OF inv1] by simp
    then have "snd (run_graph e 24 SelectNextAgent tr1 s1) \<noteq> Inl GraphRecursionError"
      using run_graph_enough_fuel inv1 n1 by blast
    then show ?thesis using gs n1 by (simp add: rg)
  qed
qed

lemma process_step_one_task:
  assumes inv: "graph_inv tr0 q ProcessWithAgent tr s"
  shows "\<exists>tr' s' i. graph_step e ProcessWithAgent tr s = (tr', Inr (SelectNextAgent, s'))
          \<and> i < length (tasks s) \<and> length (tasks s') = length (tasks s)
          \<and> find (\<lambda>t. status t = PENDING) (tasks s) = Some (tasks s ! i)
          \<and> current_agent s = Some (agent_type (tasks s ! i))
          \<and> tr' = tr @ [HttpPost (framework_agents (agent_type (tasks s ! i))) q]
          \<and> (status (tasks s' ! i) = COMPLETED \<or> status (tasks s' ! i) = FAILED)
          \<and> (\<forall>j < length (tasks s). j \<noteq> i \<longrightarrow> tasks s' ! j = tasks s ! j)
          \<and> Suc (pending_count s') = pending_count s"
proof -
  from process_step[OF inv, of e] obtain t r where
    ft: "find (\<lambda>t. status t = PENDING) (tasks s) = Some t"
    and cur: "current_agent s = Some (agent_type t)"
    and gs: "graph_step e ProcessWithAgent tr s =
               (tr @ [HttpPost (framework_agents (agent_type t)) q],
                Inr (SelectNextAgent,
                     s\<lparr>tasks := map (\<lambda>x. if agent_type x \<noteq> agent_type t then x else record_result t r) (tasks s),
                       messages := messages s @ messages s,
                       final_output := final_output s @ final_output s\<rparr>))"
    by blast
  define s' where "s' = s\<lparr>tasks := map (\<lambda>x. if agent_type x \<noteq> agent_type t then x else record_result t r) (tasks s),
                       messages := messages s @ messages s,
                       final_output := final_output s @ final_output s\<rparr>"
  have gs': "graph_step e ProcessWithAgent tr s =
      (tr @ [HttpPost (framework_agents (agent_type t)) q], Inr (SelectNextAgent, s'))"
    using gs by (simp add: s'_def)
  have tin: "t \<in> set (tasks s)" using find_Some_mem[OF ft] by auto
  then obtain i where i: "i < length (tasks s)" and ti: "tasks s ! i = t"
    by (auto simp: in_set_conv_nth)
  have dis: "distinct (map agent_type (tasks s))" using inv by (simp add: graph_inv_def)
  have other: "\<forall>j < length (tasks s). j \<noteq> i \<longrightarrow> tasks s' ! j = tasks s ! j"
  proof (intro allI impI)
    fix j assume j: "j < length (tasks s)" and ji: "j \<noteq> i"
    have "agent_type (tasks s ! j) \<noteq> agent_type t"
    proof
      assume "agent_type (tasks s ! j) = agent_type t"
      then have "map agent_type (tasks s) ! j = map agent_type (tasks s) ! i"
        using i j ti by simp
      moreover have "j < length (map agent_type (tasks s))" "i < length (map agent_type (tasks s))"
        using i j by simp_all
      ultimately have "j = i" using dis nth_eq_iff_index_eq by blast
      then show False using ji by simp
    qed
    then show "tasks s' ! j = tasks s ! j" using j by (simp add: s'_def)
  qed
  have "status (tasks s' ! i) = COMPLETED \<or> status (tasks s' ! i) = FAILED"
    using i ti status_record_result[of t r] by (simp add: s'_def)
  moreover have "length (tasks s') = length (tasks s)" by (simp add: s'_def)
  moreover have "Suc (pending_count s') = pending_count s"
    using process_step_count[OF inv gs'] .
  ultimately show ?thesis
    using gs' i ti ft cur other
    by (intro exI[of _ "tr @ [HttpPost (framework_agents (agent_type t)) q]"] exI[of _ s'] exI[of _ i]) simp
qed

lemma reachable_step:
  "reachable e tr0 q n tr s \<Longrightarrow> n \<noteq> END \<Longrightarrow> graph_step e n tr s = (tr', Inr (n', s'))
     \<Longrightarrow> reachable e tr0 q n' tr' s'"
  unfolding reachable_def by (rule steps.step)

section \<open>Lemmas: finalize and the aggregation\<close>


lemma agent_responses_filter:
  "agent_responses e (filter (\<lambda>t. status t = COMPLETED) ts) = agent_responses e ts"
  by (simp add: agent_responses_def)




lemma finalize_none_completed:
  assumes "\<forall>t \<in> set (tasks s). status t \<noteq> COMPLETED"
  shows "finalize e tr s =
     (tr, Inr (empty_update\<lparr>upd_final_output := Some fallback_output,
                            upd_messages := Some [answer_message fallback_output]\<rparr>))"
proof -
  have "filter (\<lambda>t. status t = COMPLETED) (tasks s) = []"
    using assms by (simp add: filter_empty_conv)
  then show ?thesis by (simp add: finalize_def bind_exc_def)
qed

lemma finalize_some_completed:
  assumes "\<exists>t \<in> set (tasks s). status t = COMPLETED"
  shows "finalize e tr s =
     (tr @ [AggregatorCall (original_query s) (agent_responses e (tasks s))],
      bind_exc (llm_invoke e tr (original_query s) (agent_responses e (tasks s))) (\<lambda>out.
        Inr (empty_update\<lparr>upd_final_output := Some out, upd_messages := Some [answer_message out]\<rparr>)))"
proof -
  have "filter (\<lambda>t. status t = COMPLETED) (tasks s) \<noteq> []"
    using assms by (simp add: filter_empty_conv)
  then show ?thesis
    by (simp add: finalize_def Let_def aggregate_responses_def agent_responses_filter)
qed

lemma finalize_step_none_completed:
  assumes "\<forall>t \<in> set (tasks s). status t \<noteq> COMPLETED"
  shows "graph_step e Finalize tr s =
     (tr, Inr (END, s\<lparr>messages := messages s @ [answer_message fallback_output],
                      final_output := final_output s @ fallback_output\<rparr>))"
  by (simp add: graph_step_def finalize_none_completed[OF assms] bind_exc_def apply_update_def
        empty_update_def)

lemma should_continue_finish:
  "should_continue s = ''finish'' \<Longrightarrow> current_agent s = None \<and> (\<forall>t \<in> set (tasks s). status t \<noteq> PENDING)"
  by (auto simp: should_continue_def list_all_iff split: if_splits)

lemma enters_finalize:
  assumes "n \<noteq> END" and "graph_step e n tr s = (tr', Inr (Finalize, s'))"
  shows "n = SelectNextAgent \<and> s' = apply_update s (select_next_agent s) \<and> should_continue s' = ''finish''"
  using assms
  by (cases n) (auto simp: graph_step_def bind_exc_def split: prod.splits sum.splits if_splits)

lemma finalize_step_result:
  assumes "graph_step e Finalize tr s = (tr', Inr (n', s'))"
  shows "n' = END \<and>
         (if list_ex (\<lambda>t. status t = COMPLETED) (tasks s)
          then tr' = tr @ [AggregatorCall (original_query s) (agent_responses e (tasks s))]
               \<and> (\<exists>out. llm_invoke e tr (original_query s) (agent_responses e (tasks s)) = Inr out
                        \<and> final_output s' = final_output s @ out)
          else tr' = tr \<and> final_output s' = final_output s @ fallback_output)"
proof (cases "list_ex (\<lambda>t. status t = COMPLETED) (tasks s)")
  case True
  then have "\<exists>t \<in> set (tasks s). status t = COMPLETED" by (simp add: list_ex_iff)
  from finalize_some_completed[OF this, of e tr] assms True show ?thesis
    by (auto simp: graph_step_def bind_exc_def apply_update_def empty_update_def split: sum.splits)
next
  case False
  then have "\<forall>t \<in> set (tasks s). status t \<noteq> COMPLETED" by (simp add: list_ex_iff)
  from finalize_step_none_completed[OF this, of e tr] assms False show ?thesis
    by auto
qed

section \<open>Lemmas: what the nodes return\<close>

lemma initialize_Inr:
  assumes "initialize e tr s = (tr', Inr u)"
  shows "\<exists>ts req. u = (state_copy s)\<lparr>upd_tasks := Some ts, upd_required_agents := Some req,
                                       upd_current_agent := Some None\<rparr>
           \<and> (\<forall>t \<in> set ts. query t = original_query s \<and> status t = PENDING)"
proof -
  obtain tr1 req where d: "determine_required_agents e tr (original_query s) = (tr1, req)"
    by (cases "determine_required_agents e tr (original_query s)")
  with assms obtain ts where mk: "make_tasks (set_iter e req) (original_query s) = Inr ts"
    and u: "u = (state_copy s)\<lparr>upd_tasks := Some ts, upd_required_agents := Some req,
                                       upd_current_agent := Some None\<rparr>"
    by (auto simp: initialize_def bind_exc_def split: sum.splits)
  from make_tasks_Inr[OF mk] u show ?thesis by blast
qed

lemma process_with_agent_Inr:
  assumes "process_with_agent e tr s = (tr', Inr u)"
  shows "u = state_copy s \<or> (\<exists>ts. u = (state_copy s)\<lparr>upd_tasks := Some ts\<rparr>)"
  using assms
  by (auto simp: process_with_agent_def split: option.splits prod.splits)

lemma finalize_Inr:
  assumes "finalize e tr s = (tr', Inr u)"
  shows "\<exists>out. u = empty_update\<lparr>upd_final_output := Some out, upd_messages := Some [answer_message out]\<rparr>"
  using assms
  by (auto simp: finalize_def Let_def bind_exc_def split: if_splits sum.splits prod.splits)

section \<open>Lemmas: reading the verdicts\<close>

lemma set_set_add_JStr: "set (set_add (JStr a) S) = insert (JStr a) (set S)"
  by (auto simp: set_add_def list_ex_iff)

lemma collect_required_verdicts:
  assumes "list_all2 (\<lambda>j v. subscript j ''agent_type'' = Inr (JStr (agent_value (fst v)))
                          \<and> subscript j ''needed'' = Inr (JBool (snd v))) items vs"
  shows "\<exists>R. collect_required items S = Inr R
           \<and> set R = set S \<union> {JStr (agent_value a) |a. (a, True) \<in> set vs}"
  using assms
proof (induction items vs arbitrary: S rule: list_all2_induct)
  case Nil
  then show ?case by simp
next
  case (Cons j items v vs)
  obtain a b where v: "v = (a, b)" by (cases v)
  show ?case
  proof (cases b)
    case True
    from Cons.IH[of "set_add (JStr (agent_value a)) S"] obtain R where
      "collect_required items (set_add (JStr (agent_value a)) S) = Inr R"
      "set R = set (set_add (JStr (agent_value a)) S) \<union> {JStr (agent_value a) |a. (a, True) \<in> set vs}"
      by blast
    then show ?thesis using Cons.hyps(1) v True
      by (auto simp: set_set_add_JStr)
  next
    case False
    from Cons.IH[of S] obtain R where
      "collect_required items S = Inr R"
      "set R = set S \<union> {JStr (agent_value a) |a. (a, True) \<in> set vs}"
      by blast
    then show ?thesis using Cons.hyps(1) v False by auto
  qed
qed

lemma determine_required_agents_fallback:
  "selection_try (chain_invoke e tr q) = Inl ex \<Longrightarrow>
     snd (determine_required_agents e tr q) = all_agent_types"
  by (simp add: determine_required_agents_def)

lemma selection_try_Inl: "selection_try (Inl ex) = Inl ex"
  by (simp add: selection_try_def bind_exc_def)

lemma set_all_agent_types:
  "set all_agent_types = {JStr (agent_value a) |a. True}"
proof -
  have "{JStr (agent_value a) |a. True} = (\<lambda>a. JStr (agent_value a)) ` UNIV" by auto
  also have "\<dots> = set all_agent_types"
    by (simp add: UNIV_AgentType all_agent_types_def insert_commute)
  finally show ?thesis by simp
qed

lemma set_add_mono: "set S \<subseteq> set (set_add x S)"
  by (auto simp: set_add_def)

lemma set_add_subset: "set (set_add x S) \<subseteq> insert x (set S)"
  by (auto simp: set_add_def)

lemma set_add_partner: "\<exists>b \<in> set (set_add x S). py_eq x b"
  by (auto simp: set_add_def list_ex_iff py_eq_refl)

lemma collect_required_needed_types:
  "collect_required items S = Inr R \<Longrightarrow>
     set S \<subseteq> set R \<and> set R \<subseteq> set S \<union> set (needed_types items)
     \<and> (\<forall>a \<in> set (needed_types items). \<exists>b \<in> set R. py_eq a b)"
proof (induction items arbitrary: S)
  case Nil
  then show ?case by simp
next
  case (Cons item rest)
  show ?case
  proof (cases "subscript item ''needed''")
    case (Inl ex)
    with Cons.prems show ?thesis by simp
  next
    case (Inr nd)
    show ?thesis
    proof (cases "truthy nd")
      case False
      with Cons.prems Inr have "collect_required rest S = Inr R" by simp
      from Cons.IH[OF this] show ?thesis using Inr False by simp
    next
      case True
      show ?thesis
      proof (cases "subscript item ''agent_type''")
        case (Inl ex)
        with Cons.prems Inr True show ?thesis by simp
      next
        case a: (Inr a)
        with Cons.prems Inr True have c: "collect_required rest (set_add a S) = Inr R"
          by (auto split: if_splits)
        from Cons.IH[OF c] have 1: "set (set_add a S) \<subseteq> set R"
          and 2: "set R \<subseteq> set (set_add a S) \<union> set (needed_types rest)"
          and 3: "\<forall>x \<in> set (needed_types rest). \<exists>b \<in> set R. py_eq x b"
          by simp_all
        have nt: "needed_types (item # rest) = a # needed_types rest"
          using Inr True a by simp
        have "set S \<subseteq> set R" using 1 set_add_mono by blast
        moreover have "set R \<subseteq> set S \<union> set (needed_types (item # rest))"
          using 2 set_add_subset[of a S] nt by auto
        moreover have "\<exists>b \<in> set R. py_eq a b"
          using set_add_partner[of a S] 1 by blast
        ultimately show ?thesis using 3 nt by simp
      qed
    qed
  qed
qed

lemma py_eq_JStr: "py_eq (JStr x) b \<longleftrightarrow> b = JStr x"
  by (cases b) auto

lemma selection_try_Inr:
  "selection_try invoked = Inr R \<Longrightarrow>
     \<exists>result agents_list items. invoked = Inr result \<and> subscript result ''agents'' = Inr agents_list
        \<and> py_iter agents_list = Inr items \<and> collect_required items [] = Inr R"
  by (auto simp: selection_try_def bind_exc_def split: sum.splits)

section \<open>Lemmas: the dispatch\<close>

lemma process_try_cases:
  "process_try posted =
     (case posted of
        Inl ex \<Rightarrow> Inl ex
      | Inr resp \<Rightarrow>
          if 400 \<le> status_code resp \<and> status_code resp < 600 then Inl (HTTPError (status_code resp))
          else (case json_body resp of
                  Inl ex \<Rightarrow> Inl ex
                | Inr body \<Rightarrow> subscript body ''result''))"
  by (simp add: process_try_def bind_exc_def raise_for_status_def split: sum.splits)

lemma subscript_Inr: "subscript body k = Inr v \<longleftrightarrow> (\<exists>kvs. body = JObj kvs \<and> map_of kvs k = Some v)"
  by (cases body) (auto split: option.splits)

lemma process_with_agent_found:
  assumes "current_agent s = Some a" and "find (\<lambda>t. agent_type t = a) (tasks s) = Some t"
  shows "process_with_agent e tr s =
     (tr @ [HttpPost (framework_agents a) (query t)],
      Inr ((state_copy s)\<lparr>upd_tasks := Some
        (map (\<lambda>x. if agent_type x \<noteq> a then x
                   else record_result t (snd (BaseAgent_process e tr (framework_agents a) (query t))))
             (tasks s))\<rparr>))"
proof -
  have "agent_type t = a" using find_Some_mem[OF assms(2)] by simp
  then show ?thesis using assms
    by (simp add: process_with_agent_def manager_process_with_agent_def BaseAgent_process_def)
qed

section \<open>Lemmas: how a run ends\<close>

lemma reachable_END:
  assumes "reachable e tr0 q END tr' s'"
  shows "\<exists>tr s. reachable e tr0 q Finalize tr s \<and> graph_step e Finalize tr s = (tr', Inr (END, s'))"
proof -
  from assms have "steps e Initialize tr0 (initial_state q) END tr' s'" by (simp add: reachable_def)
  then obtain n1 tr1 s1 where st: "steps e Initialize tr0 (initial_state q) n1 tr1 s1"
    and ne: "n1 \<noteq> END" and gs: "graph_step e n1 tr1 s1 = (tr', Inr (END, s'))"
    by (cases rule: steps.cases) auto
  have "n1 = Finalize"
    using ne gs
    by (cases n1) (auto simp: graph_step_def bind_exc_def split: prod.splits sum.splits if_splits)
  with st gs show ?thesis by (auto simp: reachable_def)
qed

lemma final_state_output:
  assumes "reachable e tr0 q END tr' s'"
  shows "original_query s' = q \<and>
         (if list_ex (\<lambda>t. status t = COMPLETED) (tasks s')
          then \<exists>tr. tr' = tr @ [AggregatorCall q (agent_responses e (tasks s'))]
                    \<and> llm_invoke e tr q (agent_responses e (tasks s')) = Inr (final_output s')
          else final_output s' = fallback_output)"
proof -
  from reachable_END[OF assms] obtain tr s where r: "reachable e tr0 q Finalize tr s"
    and gs: "graph_step e Finalize tr s = (tr', Inr (END, s'))"
    by blast
  have q: "original_query s = q" and fo: "final_output s = []"
    using reachable_inv[OF r] by (simp_all add: graph_inv_def)
  have ts: "tasks s' = tasks s"
    using gs graph_step_tasks[OF reachable_inv[OF r] _ gs]
    by (auto simp: graph_step_def bind_exc_def apply_update_def empty_update_def
          dest!: finalize_Inr split: prod.splits sum.splits)
  have "original_query s' = q"
    using reachable_inv[OF assms] by (simp add: graph_inv_def)
  then show ?thesis
    using finalize_step_result[OF gs] q fo ts by (auto split: if_splits)
qed

lemma run_framework_manager_reachable:
  "run_framework_manager e tr0 q = (tr', Inr s') \<Longrightarrow> reachable e tr0 q END tr' s'"
  unfolding run_framework_manager_def reachable_def by (rule run_graph_steps)

lemma finalize_step_raises:
  assumes "graph_step e Finalize tr s = (tr', Inl ex)"
  shows "list_ex (\<lambda>t. status t = COMPLETED) (tasks s)
         \<and> tr' = tr @ [AggregatorCall (original_query s) (agent_responses e (tasks s))]
         \<and> llm_invoke e tr (original_query s) (agent_responses e (tasks s)) = Inl ex"
proof (cases "list_ex (\<lambda>t. status t = COMPLETED) (tasks s)")
  case True
  then have "\<exists>t \<in> set (tasks s). status t = COMPLETED" by (simp add: list_ex_iff)
  from finalize_some_completed[OF this, of e tr] assms True show ?thesis
    by (auto simp: graph_step_def bind_exc_def split: sum.splits)
next
  case False
  then have "\<forall>t \<in> set (tasks s). status t \<noteq> COMPLETED" by (simp add: list_ex_iff)
  from finalize_step_none_completed[OF this, of e tr] assms show ?thesis by simp
qed

lemma make_tasks_Inl: "make_tasks vs q = Inl ex \<Longrightarrow> ex = ValidationError"
  by (induction vs)
     (auto simp: new_AgentTask_def bind_exc_def validate_agent_type_def split: sum.splits if_splits)

lemma initialize_step_raises:
  assumes "graph_step e Initialize tr s = (tr', Inl ex)"
  shows "ex = ValidationError \<and> tr' = tr @ [SelectorCall (original_query s)]"
proof -
  obtain tr1 req where d: "determine_required_agents e tr (original_query s) = (tr1, req)"
    by (cases "determine_required_agents e tr (original_query s)")
  then have tr1: "tr1 = tr @ [SelectorCall (original_query s)]"
    by (auto simp: determine_required_agents_def)
  from assms d have "make_tasks (set_iter e req) (original_query s) = Inl ex" and "tr' = tr1"
    by (auto simp: graph_step_def initialize_def bind_exc_def split: sum.splits)
  then show ?thesis using make_tasks_Inl tr1 by blast
qed

lemma graph_step_raises:
  assumes inv: "graph_inv tr0 q n tr s" and ne: "n \<noteq> END"
    and st: "graph_step e n tr s = (tr', Inl ex)"
  shows "n = Initialize \<and> ex = ValidationError \<and> tr' = tr0 @ [SelectorCall q]
       \<or> n = Finalize \<and> list_ex (\<lambda>t. status t = COMPLETED) (tasks s)
           \<and> tr' = tr @ [AggregatorCall q (agent_responses e (tasks s))]
           \<and> llm_invoke e tr q (agent_responses e (tasks s)) = Inl ex"
proof (cases n)
  case Initialize
  have "original_query s = q" "tr = tr0" using inv Initialize by (simp_all add: graph_inv_def)
  then show ?thesis using initialize_step_raises[OF st[unfolded Initialize]] Initialize by simp
next
  case SelectNextAgent
  then show ?thesis using st by (simp add: select_step)
next
  case ProcessWithAgent
  from process_step[OF inv[unfolded ProcessWithAgent], of e] st ProcessWithAgent
  show ?thesis by auto
next
  case Finalize
  have "original_query s = q" using inv by (simp add: graph_inv_def)
  then show ?thesis using finalize_step_raises[OF st[unfolded Finalize]] Finalize by simp
next
  case END
  with ne show ?thesis by simp
qed

lemma run_graph_Raised:
  "run_graph e fuel n tr s = (tr', Inl (Raised ex)) \<Longrightarrow>
     \<exists>n1 tr1 s1. steps e n tr s n1 tr1 s1 \<and> n1 \<noteq> END \<and> graph_step e n1 tr1 s1 = (tr', Inl ex)"
proof (induction fuel arbitrary: n tr s)
  case 0
  then show ?case by (cases n) auto
next
  case (Suc fuel)
  show ?case
  proof (cases "n = END")
    case True
    with Suc.prems show ?thesis by simp
  next
    case False
    obtain tr1 r where g: "graph_step e n tr s = (tr1, r)" by (cases "graph_step e n tr s")
    show ?thesis
    proof (cases r)
      case (Inl ex1)
      with Suc.prems g False have "tr1 = tr'" "ex1 = ex"
        by (simp_all add: run_graph_not_END)
      with g Inl False show ?thesis
        using steps.here[of e n tr s] by blast
    next
      case (Inr c)
      obtain n1 s1 where c: "c = (n1, s1)" by (cases c)
      with Suc.prems g False Inr have "run_graph e fuel n1 tr1 s1 = (tr', Inl (Raised ex))"
        by (simp add: run_graph_not_END)
      from Suc.IH[OF this] obtain n2 tr2 s2 where
        "steps e n1 tr1 s1 n2 tr2 s2" "n2 \<noteq> END" "graph_step e n2 tr2 s2 = (tr', Inl ex)"
        by blast
      moreover have "graph_step e n tr s = (tr1, Inr (n1, s1))" using g Inr c by simp
      ultimately show ?thesis using steps_front False by blast
    qed
  qed
qed

lemma run_framework_manager_Raised:
  assumes "run_framework_manager e tr0 q = (tr', Inl (Raised ex))"
  shows "ex = ValidationError \<and> tr' = tr0 @ [SelectorCall q]
       \<or> (\<exists>tr s. reachable e tr0 q Finalize tr s
              \<and> list_ex (\<lambda>t. status t = COMPLETED) (tasks s)
              \<and> tr' = tr @ [AggregatorCall q (agent_responses e (tasks s))]
              \<and> llm_invoke e tr q (agent_responses e (tasks s)) = Inl ex)"
proof -
  from run_graph_Raised[OF assms[unfolded run_framework_manager_def]] obtain n1 tr1 s1 where
    st: "steps e Initialize tr0 (initial_state q) n1 tr1 s1" and ne: "n1 \<noteq> END"
    and gs: "graph_step e n1 tr1 s1 = (tr', Inl ex)"
    by blast
  have r: "reachable e tr0 q n1 tr1 s1" using st by (simp add: reachable_def)
  from graph_step_raises[OF reachable_inv[OF r] ne gs] r show ?thesis by blast
qed

text \<open>What the step of \<open>finalize\<close> gives, whatever the aggregation model does.\<close>

lemma finalize_step_exact:
  "graph_step e Finalize tr s =
     (if list_ex (\<lambda>t. status t = COMPLETED) (tasks s)
      then (tr @ [AggregatorCall (original_query s) (agent_responses e (tasks s))],
            case llm_invoke e tr (original_query s) (agent_responses e (tasks s)) of
              Inl ex \<Rightarrow> Inl ex
            | Inr out \<Rightarrow> Inr (END, s\<lparr>messages := messages s @ [answer_message out],
                                      final_output := final_output s @ out\<rparr>))
      else (tr, Inr (END, s\<lparr>messages := messages s @ [answer_message fallback_output],
                             final_output := final_output s @ fallback_output\<rparr>)))"
proof (cases "list_ex (\<lambda>t. status t = COMPLETED) (tasks s)")
  case True
  then have "\<exists>t \<in> set (tasks s). status t = COMPLETED" by (simp add: list_ex_iff)
  from finalize_some_completed[OF this, of e tr] True show ?thesis
    by (simp add: graph_step_def bind_exc_def apply_update_def empty_update_def split: sum.splits)
next
  case False
  then have "\<forall>t \<in> set (tasks s). status t \<noteq> COMPLETED" by (simp add: list_ex_iff)
  from finalize_step_none_completed[OF this, of e tr] False show ?thesis by simp
qed

section \<open>Lemmas: the requests on record\<close>

lemma dispatch_inv_start: "dispatch_inv tr0 q tr0 (initial_state q)"
  unfolding dispatch_inv_def
  by (intro exI[of _ "[]"]) (simp add: initial_state_def)

lemma find_skip_done:
  "list_all (\<lambda>t. \<not> P t) done \<Longrightarrow> find P (done @ todo) = find P todo"
  by (induction "done") simp_all

lemma find_pending_split:
  assumes "find (\<lambda>t. status t = PENDING) (done @ todo) = Some t"
    and "list_all (\<lambda>t. status t \<noteq> PENDING) done"
    and "list_all (\<lambda>t. status t = PENDING) todo"
  shows "\<exists>rest. todo = t # rest"
proof -
  have f: "find (\<lambda>t. status t = PENDING) todo = Some t"
    using assms(1) find_skip_done[OF assms(2), of todo] by simp
  then show ?thesis using assms(3) by (cases todo) auto
qed

lemma dispatch_inv_step:
  assumes inv: "graph_inv tr0 q n tr s" and d: "dispatch_inv tr0 q tr s" and ne: "n \<noteq> END"
    and st: "graph_step e n tr s = (tr', Inr (n', s'))"
  shows "dispatch_inv tr0 q tr' s'"
proof (cases n)
  case Initialize
  have s0: "tasks s = []" "tr = tr0" "original_query s = q"
    using inv Initialize by (simp_all add: graph_inv_def)
  from st Initialize obtain u where i: "initialize e tr s = (tr', Inr u)" and s': "s' = apply_update s u"
    by (auto simp: graph_step_def bind_exc_def split: prod.splits sum.splits)
  from initialize_Inr[OF i] obtain ts req where
    u: "u = (state_copy s)\<lparr>upd_tasks := Some ts, upd_required_agents := Some req,
                            upd_current_agent := Some None\<rparr>"
    and ts: "\<forall>t \<in> set ts. query t = original_query s \<and> status t = PENDING"
    by blast
  have tr': "tr' = tr0 @ [SelectorCall q]"
    using i s0 by (auto simp: initialize_def determine_required_agents_def split: prod.splits)
  have "tasks s' = [] @ ts" by (simp add: s' u apply_update_def state_copy_def)
  moreover have "list_all (\<lambda>t. status t = PENDING) ts" using ts by (simp add: list_all_iff)
  ultimately show ?thesis
    unfolding dispatch_inv_def
    by (intro exI[of _ "[]"] exI[of _ ts] exI[of _ "[SelectorCall q]"]) (simp add: tr')
next
  case SelectNextAgent
  with st have "s' = apply_update s (select_next_agent s)" "tr' = tr"
    by (auto simp: graph_step_def bind_exc_def)
  then show ?thesis using d by (simp add: dispatch_inv_def apply_select_next_agent)
next
  case ProcessWithAgent
  from process_step[OF inv[unfolded ProcessWithAgent], of e] obtain t r where
    ft: "find (\<lambda>t. status t = PENDING) (tasks s) = Some t"
    and gs: "graph_step e ProcessWithAgent tr s =
               (tr @ [HttpPost (framework_agents (agent_type t)) q],
                Inr (SelectNextAgent,
                     s\<lparr>tasks := map (\<lambda>x. if agent_type x \<noteq> agent_type t then x else record_result t r) (tasks s),
                       messages := messages s @ messages s,
                       final_output := final_output s @ final_output s\<rparr>))"
    by blast
  from st gs ProcessWithAgent have
    ts': "tasks s' = map (\<lambda>x. if agent_type x \<noteq> agent_type t then x else record_result t r) (tasks s)"
    and tr': "tr' = tr @ [HttpPost (framework_agents (agent_type t)) q]"
    by auto
  from d obtain dn todo calls where
    sp: "tasks s = dn @ todo" and dn: "list_all (\<lambda>t. status t \<noteq> PENDING) dn"
    and td: "list_all (\<lambda>t. status t = PENDING) todo" and c: "tr = tr0 @ calls"
    and fp: "filter is_post calls = map (\<lambda>t. HttpPost (framework_agents (agent_type t)) q) dn"
    by (auto simp: dispatch_inv_def)
  from find_pending_split[OF ft[unfolded sp] dn td] obtain rest where todo: "todo = t # rest" by blast
  have dis: "distinct (map agent_type (dn @ t # rest))"
    using inv sp todo by (simp add: graph_inv_def)
  have k1: "map (\<lambda>x. if agent_type x \<noteq> agent_type t then x else record_result t r) dn = dn"
    using dis by (intro map_idI) (auto simp: image_iff)
  have k2: "map (\<lambda>x. if agent_type x \<noteq> agent_type t then x else record_result t r) rest = rest"
    using dis by (intro map_idI) (auto simp: image_iff)
  have new: "tasks s' = (dn @ [record_result t r]) @ rest"
    by (simp add: ts' sp todo k1 k2)
  have np: "status (record_result t r) \<noteq> PENDING"
    using status_record_result[of t r] by auto
  have "list_all (\<lambda>t. status t \<noteq> PENDING) (dn @ [record_result t r])"
    using dn np by simp
  moreover have "list_all (\<lambda>t. status t = PENDING) rest" using td todo by simp
  moreover have "tr' = tr0 @ (calls @ [HttpPost (framework_agents (agent_type t)) q])"
    by (simp add: tr' c)
  moreover have "filter is_post (calls @ [HttpPost (framework_agents (agent_type t)) q])
      = map (\<lambda>t. HttpPost (framework_agents (agent_type t)) q) (dn @ [record_result t r])"
    by (simp add: fp)
  ultimately show ?thesis
    unfolding dispatch_inv_def using new
    by (intro exI[of _ "dn @ [record_result t r]"] exI[of _ rest]
          exI[of _ "calls @ [HttpPost (framework_agents (agent_type t)) q]"]) simp
next
  case Finalize
  from st Finalize obtain u where f: "finalize e tr s = (tr', Inr u)" and s': "s' = apply_update s u"
    by (auto simp: graph_step_def bind_exc_def split: prod.splits sum.splits)
  from finalize_Inr[OF f] have ts: "tasks s' = tasks s"
    by (auto simp: s' apply_update_def empty_update_def)
  have tr': "tr' = tr \<or> (\<exists>c. \<not> is_post c \<and> tr' = tr @ [c])"
    using f by (auto simp: finalize_def Let_def aggregate_responses_def split: if_splits)
  from d obtain dn todo calls where
    sp: "tasks s = dn @ todo" and dn: "list_all (\<lambda>t. status t \<noteq> PENDING) dn"
    and td: "list_all (\<lambda>t. status t = PENDING) todo" and c: "tr = tr0 @ calls"
    and fp: "filter is_post calls = map (\<lambda>t. HttpPost (framework_agents (agent_type t)) q) dn"
    by (auto simp: dispatch_inv_def)
  from tr' c obtain calls' where "tr' = tr0 @ calls'" "filter is_post calls' = filter is_post calls"
    by auto
  then show ?thesis
    unfolding dispatch_inv_def using sp dn td fp ts
    by (intro exI[of _ dn] exI[of _ todo] exI[of _ calls']) simp
next
  case END
  with ne show ?thesis by simp
qed

lemma steps_dispatch_inv:
  "steps e n tr s n' tr' s' \<Longrightarrow> graph_inv tr0 q n tr s \<Longrightarrow> dispatch_inv tr0 q tr s
     \<Longrightarrow> dispatch_inv tr0 q tr' s'"
proof (induction rule: steps.induct)
  case here
  then show ?case by simp
next
  case (step n1 tr1 s1 tr2 n2 s2)
  have "graph_inv tr0 q n1 tr1 s1" using steps_inv[OF step.hyps(1) step.prems(1)] .
  moreover have "dispatch_inv tr0 q tr1 s1" using step.IH step.prems by blast
  ultimately show ?case using dispatch_inv_step step.hyps(2,3) by blast
qed

lemma reachable_dispatch_inv: "reachable e tr0 q n tr s \<Longrightarrow> dispatch_inv tr0 q tr s"
  unfolding reachable_def
  using steps_dispatch_inv graph_inv_start dispatch_inv_start by blast

lemma finalize_all_posted:
  assumes "reachable e tr0 q Finalize tr s"
  shows "\<exists>calls. tr = tr0 @ calls
           \<and> filter is_post calls = map (\<lambda>t. HttpPost (framework_agents (agent_type t)) q) (tasks s)"
proof -
  from reachable_dispatch_inv[OF assms] obtain dn todo calls where
    sp: "tasks s = dn @ todo" and td: "list_all (\<lambda>t. status t = PENDING) todo" and c: "tr = tr0 @ calls"
    and fp: "filter is_post calls = map (\<lambda>t. HttpPost (framework_agents (agent_type t)) q) dn"
    by (auto simp: dispatch_inv_def)
  have "\<forall>t \<in> set (tasks s). status t \<noteq> PENDING"
    using reachable_inv[OF assms] by (simp add: graph_inv_def)
  then have "todo = []" using sp td by (cases todo) auto
  then show ?thesis using sp c fp by auto
qed

section \<open>C1: what a dispatch returns and records\<close>

text \<open>
  C1, as amended. \<open>BaseAgent.process\<close> always returns one of its two dicts and never raises.
  It returns success with the \<open>result\<close> field when the request returns a response whose
  status is not a client or server error (not in 400 to 599: the statuses at which
  \<open>raise_for_status\<close> raises) and whose JSON body is an object with a \<open>result\<close> field, and
  only then. It returns failure with the text of the exception when the status is in 400 to
  599, when the request raises, and on any other exception. \<open>process_with_agent\<close> then
  puts, at every position that holds a task of the current agent type, the task it found with
  status \<open>COMPLETED\<close> and the result as response in the first case, and with status \<open>FAILED\<close>
  and the error string as error in the second.
\<close>

theorem C1_dispatch_outcome:
  "fst (BaseAgent_process e tr url q) = tr @ [HttpPost url q]
   \<and> ((\<exists>v. snd (BaseAgent_process e tr url q) = Success v)
        \<or> (\<exists>msg. snd (BaseAgent_process e tr url q) = Failure msg))
   \<and> (\<forall>v. snd (BaseAgent_process e tr url q) = Success v \<longleftrightarrow>
         (\<exists>resp kvs. requests_post e tr url q = Inr resp
            \<and> \<not> (400 \<le> status_code resp \<and> status_code resp < 600)
            \<and> json_body resp = Inr (JObj kvs) \<and> map_of kvs ''result'' = Some v))
   \<and> (\<forall>resp. requests_post e tr url q = Inr resp \<and> 400 \<le> status_code resp \<and> status_code resp < 600
         \<longrightarrow> snd (BaseAgent_process e tr url q) = Failure (exc_str e (HTTPError (status_code resp))))
   \<and> (\<forall>ex. requests_post e tr url q = Inl ex
         \<longrightarrow> snd (BaseAgent_process e tr url q) = Failure (exc_str e ex))
   \<and> (\<forall>ex. process_try (requests_post e tr url q) = Inl ex
         \<longrightarrow> snd (BaseAgent_process e tr url q) = Failure (exc_str e ex))
   \<and> (\<forall>a t. current_agent s = Some a \<and> find (\<lambda>t. agent_type t = a) (tasks s) = Some t \<longrightarrow>
         (\<exists>u t'. process_with_agent e tr s = (tr @ [HttpPost (framework_agents a) (query t)], Inr u)
            \<and> tasks (apply_update s u) = map (\<lambda>x. if agent_type x = a then t' else x) (tasks s)
            \<and> (\<forall>v. snd (BaseAgent_process e tr (framework_agents a) (query t)) = Success v \<longrightarrow>
                  t' = t\<lparr>response := v, status := COMPLETED\<rparr>)
            \<and> (\<forall>msg. snd (BaseAgent_process e tr (framework_agents a) (query t)) = Failure msg \<longrightarrow>
                  t' = t\<lparr>error := Some msg, status := FAILED\<rparr>)))"
proof (intro conjI allI impI)
  show "fst (BaseAgent_process e tr url q) = tr @ [HttpPost url q]"
    by (simp add: BaseAgent_process_def)
next
  show "(\<exists>v. snd (BaseAgent_process e tr url q) = Success v)
        \<or> (\<exists>msg. snd (BaseAgent_process e tr url q) = Failure msg)"
    by (cases "snd (BaseAgent_process e tr url q)") auto
next
  fix v
  show "snd (BaseAgent_process e tr url q) = Success v \<longleftrightarrow>
         (\<exists>resp kvs. requests_post e tr url q = Inr resp
            \<and> \<not> (400 \<le> status_code resp \<and> status_code resp < 600)
            \<and> json_body resp = Inr (JObj kvs) \<and> map_of kvs ''result'' = Some v)"
    by (auto simp: BaseAgent_process_def process_try_cases subscript_Inr split: sum.splits if_splits)
next
  fix resp
  assume "requests_post e tr url q = Inr resp \<and> 400 \<le> status_code resp \<and> status_code resp < 600"
  then show "snd (BaseAgent_process e tr url q) = Failure (exc_str e (HTTPError (status_code resp)))"
    by (simp add: BaseAgent_process_def process_try_cases)
next
  fix ex assume "requests_post e tr url q = Inl ex"
  then show "snd (BaseAgent_process e tr url q) = Failure (exc_str e ex)"
    by (simp add: BaseAgent_process_def process_try_cases)
next
  fix ex assume "process_try (requests_post e tr url q) = Inl ex"
  then show "snd (BaseAgent_process e tr url q) = Failure (exc_str e ex)"
    by (simp add: BaseAgent_process_def)
next
  fix a t
  assume a: "current_agent s = Some a \<and> find (\<lambda>t. agent_type t = a) (tasks s) = Some t"
  define r where "r = snd (BaseAgent_process e tr (framework_agents a) (query t))"
  define u where "u = (state_copy s)\<lparr>upd_tasks := Some
        (map (\<lambda>x. if agent_type x \<noteq> a then x else record_result t r) (tasks s))\<rparr>"
  have p: "process_with_agent e tr s = (tr @ [HttpPost (framework_agents a) (query t)], Inr u)"
    using process_with_agent_found[of s a t e tr] a by (simp add: u_def r_def)
  have ts: "tasks (apply_update s u) = map (\<lambda>x. if agent_type x = a then record_result t r else x) (tasks s)"
    by (simp add: u_def apply_state_copy_tasks)
  have s1: "\<forall>v. r = Success v \<longrightarrow> record_result t r = t\<lparr>response := v, status := COMPLETED\<rparr>"
    by (simp add: record_result_def)
  have s2: "\<forall>msg. r = Failure msg \<longrightarrow> record_result t r = t\<lparr>error := Some msg, status := FAILED\<rparr>"
    by (simp add: record_result_def)
  show "\<exists>u t'. process_with_agent e tr s = (tr @ [HttpPost (framework_agents a) (query t)], Inr u)
            \<and> tasks (apply_update s u) = map (\<lambda>x. if agent_type x = a then t' else x) (tasks s)
            \<and> (\<forall>v. snd (BaseAgent_process e tr (framework_agents a) (query t)) = Success v \<longrightarrow>
                  t' = t\<lparr>response := v, status := COMPLETED\<rparr>)
            \<and> (\<forall>msg. snd (BaseAgent_process e tr (framework_agents a) (query t)) = Failure msg \<longrightarrow>
                  t' = t\<lparr>error := Some msg, status := FAILED\<rparr>)"
    using p ts s1 s2 unfolding r_def[symmetric]
    by (intro exI[of _ u] exI[of _ "record_result t r"]) simp
qed

text \<open>
  C1 as the specification states it fails: a response with status 300 is not a 2xx response,
  yet \<open>raise_for_status\<close> does not raise on it, and \<open>process\<close> returns success.
\<close>

theorem C1_counterexample:
  "requests_post redirect_world [] ELIZAOS_API_ENDPOINT ''hi'' = Inr redirect_response
   \<and> status_code redirect_response = 300
   \<and> \<not> (200 \<le> status_code redirect_response \<and> status_code redirect_response < 300)
   \<and> BaseAgent_process redirect_world [] ELIZAOS_API_ENDPOINT ''hi''
       = ([HttpPost ELIZAOS_API_ENDPOINT ''hi''], Success (JStr ''ok''))"
  by (simp add: redirect_world_def redirect_response_def BaseAgent_process_def process_try_cases)

theorem C1_dispatch_outcome_witness:
  "snd (BaseAgent_process sample_world [] ELIZAOS_API_ENDPOINT ''hi'') = Success (JStr ''use eliza'')
   \<and> snd (BaseAgent_process sample_world [] GOOSE_API_ENDPOINT ''hi'') = Failure ''Server Error''
   \<and> snd (BaseAgent_process no_world [] GOOSE_API_ENDPOINT ''hi'') = Failure ''Connection refused''
   \<and> (\<exists>u. process_with_agent sample_world []
              ((initial_state ''hi'')
                 \<lparr>tasks := [\<lparr>agent_type = ELIZAOS, query = ''hi'', status = PENDING, response = JNull, error = None\<rparr>,
                            \<lparr>agent_type = GOOSE, query = ''hi'', status = PENDING, response = JNull, error = None\<rparr>],
                  current_agent := Some ELIZAOS\<rparr>)
              = ([HttpPost ELIZAOS_API_ENDPOINT ''hi''], Inr u)
          \<and> upd_tasks u = Some
               [\<lparr>agent_type = ELIZAOS, query = ''hi'', status = COMPLETED, response = JStr ''use eliza'', error = None\<rparr>,
                \<lparr>agent_type = GOOSE, query = ''hi'', status = PENDING, response = JNull, error = None\<rparr>])
   \<and> (\<exists>u. process_with_agent sample_world []
              ((initial_state ''hi'')
                 \<lparr>tasks := [\<lparr>agent_type = ELIZAOS, query = ''hi'', status = PENDING, response = JNull, error = None\<rparr>,
                            \<lparr>agent_type = GOOSE, query = ''hi'', status = PENDING, response = JNull, error = None\<rparr>],
                  current_agent := Some GOOSE\<rparr>)
              = ([HttpPost GOOSE_API_ENDPOINT ''hi''], Inr u)
          \<and> upd_tasks u = Some
               [\<lparr>agent_type = ELIZAOS, query = ''hi'', status = PENDING, response = JNull, error = None\<rparr>,
                \<lparr>agent_type = GOOSE, query = ''hi'', status = FAILED, response = JNull, error = Some ''Server Error''\<rparr>])"
proof -
  define t1 where "t1 = \<lparr>agent_type = ELIZAOS, query = ''hi'', status = PENDING, response = JNull, error = None\<rparr>"
  define t2 where "t2 = \<lparr>agent_type = GOOSE, query = ''hi'', status = PENDING, response = JNull, error = None\<rparr>"
  define sa where "sa = (initial_state ''hi'')\<lparr>tasks := [t1, t2], current_agent := Some ELIZAOS\<rparr>"
  define sb where "sb = (initial_state ''hi'')\<lparr>tasks := [t1, t2], current_agent := Some GOOSE\<rparr>"
  note we = C1_dispatch_outcome[of sample_world "[]" ELIZAOS_API_ENDPOINT "''hi''" sa]
  note wg = C1_dispatch_outcome[of sample_world "[]" GOOSE_API_ENDPOINT "''hi''" sb]
  note wn = C1_dispatch_outcome[of no_world "[]" GOOSE_API_ENDPOINT "''hi''" sb]
  have pe: "requests_post sample_world [] ELIZAOS_API_ENDPOINT ''hi''
      = Inr \<lparr>status_code = 200, json_body = Inr (JObj [(''result'', JStr ''use eliza'')])\<rparr>"
    by (simp add: sample_world_def no_world_def)
  have pg: "requests_post sample_world [] GOOSE_API_ENDPOINT ''hi''
      = Inr \<lparr>status_code = 503, json_body = Inl (LibraryError ''JSONDecodeError'')\<rparr>"
    by (simp add: sample_world_def no_world_def GOOSE_API_ENDPOINT_def ELIZAOS_API_ENDPOINT_def)
  have pn: "requests_post no_world [] GOOSE_API_ENDPOINT ''hi'' = Inl (LibraryError ''ConnectionError'')"
    by (simp add: no_world_def)
  have r1: "snd (BaseAgent_process sample_world [] ELIZAOS_API_ENDPOINT ''hi'') = Success (JStr ''use eliza'')"
    using we pe by simp
  have "snd (BaseAgent_process sample_world [] GOOSE_API_ENDPOINT ''hi'')
      = Failure (exc_str sample_world (HTTPError 503))"
    using wg pg by simp
  then have r2: "snd (BaseAgent_process sample_world [] GOOSE_API_ENDPOINT ''hi'') = Failure ''Server Error''"
    by (simp add: sample_world_def no_world_def)
  have "snd (BaseAgent_process no_world [] GOOSE_API_ENDPOINT ''hi'')
      = Failure (exc_str no_world (LibraryError ''ConnectionError''))"
    using wn pn by simp
  then have r3: "snd (BaseAgent_process no_world [] GOOSE_API_ENDPOINT ''hi'') = Failure ''Connection refused''"
    by (simp add: no_world_def)
  have fa: "current_agent sa = Some ELIZAOS \<and> find (\<lambda>t. agent_type t = ELIZAOS) (tasks sa) = Some t1"
    by (simp add: sa_def t1_def)
  have fb: "current_agent sb = Some GOOSE \<and> find (\<lambda>t. agent_type t = GOOSE) (tasks sb) = Some t2"
    by (simp add: sb_def t1_def t2_def)
  from we fa obtain ua ta where
    pa: "process_with_agent sample_world [] sa = ([] @ [HttpPost (framework_agents ELIZAOS) (query t1)], Inr ua)"
    and ta: "tasks (apply_update sa ua) = map (\<lambda>x. if agent_type x = ELIZAOS then ta else x) (tasks sa)"
    and ta': "\<forall>v. snd (BaseAgent_process sample_world [] (framework_agents ELIZAOS) (query t1)) = Success v \<longrightarrow>
                  ta = t1\<lparr>response := v, status := COMPLETED\<rparr>"
    by blast
  have qa: "framework_agents ELIZAOS = ELIZAOS_API_ENDPOINT" "query t1 = ''hi''"
    by (simp_all add: t1_def)
  have tav: "ta = t1\<lparr>response := JStr ''use eliza'', status := COMPLETED\<rparr>"
    using ta' r1 qa by simp
  from process_with_agent_Inr[OF pa] have "upd_tasks ua = Some (tasks (apply_update sa ua))"
    by (auto simp: state_copy_def apply_update_def)
  then have ua: "upd_tasks ua = Some [t1\<lparr>response := JStr ''use eliza'', status := COMPLETED\<rparr>, t2]"
    using ta tav by (simp add: sa_def t1_def t2_def)
  from wg fb obtain ub tb where
    pb: "process_with_agent sample_world [] sb = ([] @ [HttpPost (framework_agents GOOSE) (query t2)], Inr ub)"
    and tb: "tasks (apply_update sb ub) = map (\<lambda>x. if agent_type x = GOOSE then tb else x) (tasks sb)"
    and tb': "\<forall>msg. snd (BaseAgent_process sample_world [] (framework_agents GOOSE) (query t2)) = Failure msg \<longrightarrow>
                  tb = t2\<lparr>error := Some msg, status := FAILED\<rparr>"
    by blast
  have qb: "framework_agents GOOSE = GOOSE_API_ENDPOINT" "query t2 = ''hi''"
    by (simp_all add: t2_def)
  have tbv: "tb = t2\<lparr>error := Some ''Server Error'', status := FAILED\<rparr>"
    using tb' r2 qb by simp
  from process_with_agent_Inr[OF pb] have "upd_tasks ub = Some (tasks (apply_update sb ub))"
    by (auto simp: state_copy_def apply_update_def)
  then have ub: "upd_tasks ub = Some [t1, t2\<lparr>error := Some ''Server Error'', status := FAILED\<rparr>]"
    using tb tbv by (simp add: sb_def t1_def t2_def)
  have A: "\<exists>u. process_with_agent sample_world [] sa = ([HttpPost ELIZAOS_API_ENDPOINT ''hi''], Inr u)
          \<and> upd_tasks u = Some [t1\<lparr>response := JStr ''use eliza'', status := COMPLETED\<rparr>, t2]"
    using pa ua qa by (intro exI[of _ ua]) simp
  have B: "\<exists>u. process_with_agent sample_world [] sb = ([HttpPost GOOSE_API_ENDPOINT ''hi''], Inr u)
          \<and> upd_tasks u = Some [t1, t2\<lparr>error := Some ''Server Error'', status := FAILED\<rparr>]"
    using pb ub qb by (intro exI[of _ ub]) simp
  show ?thesis
    using r1 r2 r3 A B unfolding sa_def sb_def t1_def t2_def by simp
qed

section \<open>C2: finalize runs after every task was attempted\<close>

text \<open>
  C2, as amended. The node \<open>finalize\<close> is reached only after every created task has been attempted.
  Whenever \<open>should_continue\<close> returns \<open>finish\<close>, no task of the state is \<open>PENDING\<close>. A step of
  the graph goes to \<open>finalize\<close> only from \<open>select_next_agent\<close>, and only when \<open>should_continue\<close>
  returns \<open>finish\<close> on the state that node has written. In every execution, when \<open>finalize\<close> is
  about to run, every task is \<open>COMPLETED\<close> or \<open>FAILED\<close>, and the requests posted since the
  execution began are one to the endpoint of the agent of each task, in the order of the
  tasks. What \<open>finalize\<close> then does is decided by the tasks and by the second language-model
  call: with no task \<open>COMPLETED\<close> it makes no call and the fallback string is the
  \<open>final_output\<close>; otherwise it makes the call, and the answer is the \<open>final_output\<close> when the
  call answers, while the exception leaves \<open>finalize\<close> and ends the workflow, with no final
  output, when the call raises. In the first two cases the graph ends.
\<close>

theorem C2_finalize_after_all_attempted:
  "(should_continue s0 = ''finish'' \<longrightarrow> (\<forall>t \<in> set (tasks s0). status t \<noteq> PENDING))
   \<and> (\<forall>n1 tr1 s1 tr2 s2. n1 \<noteq> END \<and> graph_step e n1 tr1 s1 = (tr2, Inr (Finalize, s2)) \<longrightarrow>
         n1 = SelectNextAgent \<and> should_continue s2 = ''finish'')
   \<and> (reachable e tr0 q Finalize tr s \<longrightarrow>
         should_continue s = ''finish''
         \<and> (\<forall>t \<in> set (tasks s). status t = COMPLETED \<or> status t = FAILED)
         \<and> (\<exists>calls. tr = tr0 @ calls \<and>
               filter is_post calls = map (\<lambda>t. HttpPost (framework_agents (agent_type t)) q) (tasks s))
         \<and> (\<forall>tr' n' s'. graph_step e Finalize tr s = (tr', Inr (n', s')) \<longrightarrow>
               n' = END \<and>
               (if list_ex (\<lambda>t. status t = COMPLETED) (tasks s)
                then tr' = tr @ [AggregatorCall q (agent_responses e (tasks s))]
                     \<and> llm_invoke e tr q (agent_responses e (tasks s)) = Inr (final_output s')
                else tr' = tr \<and> final_output s' = fallback_output))
         \<and> (\<forall>tr' ex. graph_step e Finalize tr s = (tr', Inl ex) \<longrightarrow>
               list_ex (\<lambda>t. status t = COMPLETED) (tasks s)
               \<and> tr' = tr @ [AggregatorCall q (agent_responses e (tasks s))]
               \<and> llm_invoke e tr q (agent_responses e (tasks s)) = Inl ex)
         \<and> graph_step e Finalize tr s =
               (if list_ex (\<lambda>t. status t = COMPLETED) (tasks s)
                then (tr @ [AggregatorCall q (agent_responses e (tasks s))],
                      case llm_invoke e tr q (agent_responses e (tasks s)) of
                        Inl ex \<Rightarrow> Inl ex
                      | Inr out \<Rightarrow> Inr (END, s\<lparr>messages := messages s @ [answer_message out],
                                                final_output := out\<rparr>))
                else (tr, Inr (END, s\<lparr>messages := messages s @ [answer_message fallback_output],
                                       final_output := fallback_output\<rparr>))))"
proof (intro conjI allI impI)
  assume "should_continue s0 = ''finish''"
  then show "\<forall>t \<in> set (tasks s0). status t \<noteq> PENDING"
    using should_continue_finish by blast
next
  fix n1 tr1 s1 tr2 s2
  assume a: "n1 \<noteq> END \<and> graph_step e n1 tr1 s1 = (tr2, Inr (Finalize, s2))"
  then have "n1 = SelectNextAgent \<and> s2 = apply_update s1 (select_next_agent s1)
      \<and> should_continue s2 = ''finish''"
    using enters_finalize[of n1 e tr1 s1 tr2 s2] by blast
  then show "n1 = SelectNextAgent" "should_continue s2 = ''finish''"
    by blast+
next
  assume r: "reachable e tr0 q Finalize tr s"
  note inv = reachable_inv[OF r]
  show "should_continue s = ''finish''" using inv by (simp add: graph_inv_def)
  have np: "\<forall>t \<in> set (tasks s). status t \<noteq> PENDING \<and> status t \<noteq> IN_PROGRESS"
    using inv by (simp add: graph_inv_def)
  show "\<forall>t \<in> set (tasks s). status t = COMPLETED \<or> status t = FAILED"
  proof
    fix t assume "t \<in> set (tasks s)"
    with np show "status t = COMPLETED \<or> status t = FAILED" by (cases "status t") auto
  qed
  show "\<exists>calls. tr = tr0 @ calls \<and>
               filter is_post calls = map (\<lambda>t. HttpPost (framework_agents (agent_type t)) q) (tasks s)"
    using finalize_all_posted[OF r] .
next
  fix tr' n' s'
  assume r: "reachable e tr0 q Finalize tr s"
    and gs: "graph_step e Finalize tr s = (tr', Inr (n', s'))"
  have q: "original_query s = q" and fo: "final_output s = []"
    using reachable_inv[OF r] by (simp_all add: graph_inv_def)
  from finalize_step_result[OF gs] q fo
  show "n' = END" 
    and "if list_ex (\<lambda>t. status t = COMPLETED) (tasks s)
                then tr' = tr @ [AggregatorCall q (agent_responses e (tasks s))]
                     \<and> llm_invoke e tr q (agent_responses e (tasks s)) = Inr (final_output s')
                else tr' = tr \<and> final_output s' = fallback_output"
    by (auto split: if_splits)
next
  fix tr' ex
  assume r: "reachable e tr0 q Finalize tr s"
    and gs: "graph_step e Finalize tr s = (tr', Inl ex)"
  have q: "original_query s = q"
    using reachable_inv[OF r] by (simp add: graph_inv_def)
  from finalize_step_raises[OF gs] q
  show "list_ex (\<lambda>t. status t = COMPLETED) (tasks s)"
    and "tr' = tr @ [AggregatorCall q (agent_responses e (tasks s))]"
    and "llm_invoke e tr q (agent_responses e (tasks s)) = Inl ex"
    by simp_all
next
  assume r: "reachable e tr0 q Finalize tr s"
  have q: "original_query s = q" and fo: "final_output s = []"
    using reachable_inv[OF r] by (simp_all add: graph_inv_def)
  show "graph_step e Finalize tr s =
               (if list_ex (\<lambda>t. status t = COMPLETED) (tasks s)
                then (tr @ [AggregatorCall q (agent_responses e (tasks s))],
                      case llm_invoke e tr q (agent_responses e (tasks s)) of
                        Inl ex \<Rightarrow> Inl ex
                      | Inr out \<Rightarrow> Inr (END, s\<lparr>messages := messages s @ [answer_message out],
                                                final_output := out\<rparr>))
                else (tr, Inr (END, s\<lparr>messages := messages s @ [answer_message fallback_output],
                                       final_output := fallback_output\<rparr>)))"
    using finalize_step_exact[of e tr s] q fo by (simp split: sum.splits)
qed

text \<open>
  C2 as stated fails: \<open>should_continue\<close> has returned \<open>finish\<close>, no task is \<open>PENDING\<close>,
  \<open>finalize\<close> runs, and no final output is produced, because the second language-model call
  raises and nothing catches it: the workflow ends with that exception.
\<close>

theorem C2_counterexample:
  "after_steps silent_model_world 6 Initialize [] (initial_state ''hi'')
     = Some (Finalize, sample_finalize_calls, sample_finalize_state)
   \<and> should_continue sample_finalize_state = ''finish''
   \<and> map status (tasks sample_finalize_state) = [COMPLETED, FAILED]
   \<and> graph_step silent_model_world Finalize sample_finalize_calls sample_finalize_state
       = (sample_finalize_calls @ [AggregatorCall ''hi'' (''ELIZAOS AGENT:'' @ [CHR 0x0A] @ ''use eliza'')],
          Inl (LibraryError ''APIConnectionError''))
   \<and> run_framework_manager silent_model_world [] ''hi''
       = (sample_finalize_calls @ [AggregatorCall ''hi'' (''ELIZAOS AGENT:'' @ [CHR 0x0A] @ ''use eliza'')],
          Inl (Raised (LibraryError ''APIConnectionError'')))"
  by code_simp

theorem C2_finalize_after_all_attempted_witness:
  "(\<exists>n1 tr1 s1 tr2 s2.
       after_steps sample_world 5 Initialize [] (initial_state ''hi'') = Some (n1, tr1, s1)
       \<and> n1 \<noteq> END \<and> graph_step sample_world n1 tr1 s1 = (tr2, Inr (Finalize, s2))
       \<and> n1 = SelectNextAgent \<and> should_continue s2 = ''finish'')
   \<and> (\<exists>tr s tr' s'.
       after_steps sample_world 6 Initialize [] (initial_state ''hi'') = Some (Finalize, tr, s)
       \<and> reachable sample_world [] ''hi'' Finalize tr s
       \<and> should_continue s = ''finish''
       \<and> map status (tasks s) = [COMPLETED, FAILED]
       \<and> tr = [SelectorCall ''hi'', HttpPost ELIZAOS_API_ENDPOINT ''hi'', HttpPost GOOSE_API_ENDPOINT ''hi'']
       \<and> graph_step sample_world Finalize tr s = (tr', Inr (END, s'))
       \<and> tr' = tr @ [AggregatorCall ''hi'' (agent_responses sample_world (tasks s))]
       \<and> final_output s' = ''merged answer'')
   \<and> (\<exists>tr s tr'.
       after_steps silent_model_world 6 Initialize [] (initial_state ''hi'') = Some (Finalize, tr, s)
       \<and> reachable silent_model_world [] ''hi'' Finalize tr s
       \<and> graph_step silent_model_world Finalize tr s = (tr', Inl (LibraryError ''APIConnectionError''))
       \<and> list_ex (\<lambda>t. status t = COMPLETED) (tasks s)
       \<and> llm_invoke silent_model_world tr ''hi'' (agent_responses silent_model_world (tasks s))
           = Inl (LibraryError ''APIConnectionError''))"
proof (intro conjI)
  have "map_option (\<lambda>(n, tr, s). (n, case graph_step sample_world n tr s of (tr', r) \<Rightarrow> map_sum (\<lambda>_. ()) fst r))
          (after_steps sample_world 5 Initialize [] (initial_state ''hi''))
        = Some (SelectNextAgent, Inr Finalize)"
    by code_simp
  then obtain tr1 s1 where
    a: "after_steps sample_world 5 Initialize [] (initial_state ''hi'') = Some (SelectNextAgent, tr1, s1)"
    and g: "(case graph_step sample_world SelectNextAgent tr1 s1 of (tr', r) \<Rightarrow> map_sum (\<lambda>_. ()) fst r)
              = Inr Finalize"
    by auto
  obtain tr2 r where g0: "graph_step sample_world SelectNextAgent tr1 s1 = (tr2, r)"
    by (cases "graph_step sample_world SelectNextAgent tr1 s1")
  with g have "map_sum (\<lambda>_. ()) fst r = Inr Finalize" by simp
  then obtain s2 where "r = Inr (Finalize, s2)" by (cases r) auto
  with g0 have gs: "graph_step sample_world SelectNextAgent tr1 s1 = (tr2, Inr (Finalize, s2))"
    by simp
  have "should_continue s2 = ''finish''"
    using C2_finalize_after_all_attempted[of _ sample_world] gs by blast
  with a gs show "\<exists>n1 tr1 s1 tr2 s2.
       after_steps sample_world 5 Initialize [] (initial_state ''hi'') = Some (n1, tr1, s1)
       \<and> n1 \<noteq> END \<and> graph_step sample_world n1 tr1 s1 = (tr2, Inr (Finalize, s2))
       \<and> n1 = SelectNextAgent \<and> should_continue s2 = ''finish''"
    by (intro exI[of _ SelectNextAgent] exI[of _ tr1] exI[of _ s1] exI[of _ tr2] exI[of _ s2]) simp
next
  have "map_option (\<lambda>(n, tr, s). (n, tr, map status (tasks s), list_ex (\<lambda>t. status t = COMPLETED) (tasks s),
            case graph_step sample_world n tr s of (tr', r) \<Rightarrow> map_sum (\<lambda>_. ()) (\<lambda>_. ()) r))
          (after_steps sample_world 6 Initialize [] (initial_state ''hi''))
        = Some (Finalize, [SelectorCall ''hi'', HttpPost ELIZAOS_API_ENDPOINT ''hi'', HttpPost GOOSE_API_ENDPOINT ''hi''],
                [COMPLETED, FAILED], True, Inr ())"
    by code_simp
  then obtain tr s where
    a: "after_steps sample_world 6 Initialize [] (initial_state ''hi'') = Some (Finalize, tr, s)"
    and t: "tr = [SelectorCall ''hi'', HttpPost ELIZAOS_API_ENDPOINT ''hi'', HttpPost GOOSE_API_ENDPOINT ''hi'']"
    and m: "map status (tasks s) = [COMPLETED, FAILED]"
    and ex: "list_ex (\<lambda>t. status t = COMPLETED) (tasks s)"
    and g: "(case graph_step sample_world Finalize tr s of (tr', r) \<Rightarrow> map_sum (\<lambda>_. ()) (\<lambda>_. ()) r) = Inr ()"
    by auto
  obtain tr' r where g0: "graph_step sample_world Finalize tr s = (tr', r)"
    by (cases "graph_step sample_world Finalize tr s")
  with g have "map_sum (\<lambda>_. ()) (\<lambda>_. ()) r = Inr ()" by simp
  then obtain n' s' where "r = Inr (n', s')" by (cases r) auto
  with g0 have gs: "graph_step sample_world Finalize tr s = (tr', Inr (n', s'))" by simp
  have r: "reachable sample_world [] ''hi'' Finalize tr s" using after_steps_reachable[OF a] .
  note c2 = C2_finalize_after_all_attempted[of s sample_world "[]" "''hi''" tr s]
  have sc: "should_continue s = ''finish''" using c2 r by blast
  have fin: "n' = END \<and> tr' = tr @ [AggregatorCall ''hi'' (agent_responses sample_world (tasks s))]
       \<and> llm_invoke sample_world tr ''hi'' (agent_responses sample_world (tasks s)) = Inr (final_output s')"
    using c2 r gs ex by simp
  then have "Inr (final_output s') = (Inr ''merged answer'' :: py_exception + string)"
    by (simp add: sample_world_def)
  then have fo: "final_output s' = ''merged answer''" by simp
  from a r sc m t gs fin fo show "\<exists>tr s tr' s'.
       after_steps sample_world 6 Initialize [] (initial_state ''hi'') = Some (Finalize, tr, s)
       \<and> reachable sample_world [] ''hi'' Finalize tr s
       \<and> should_continue s = ''finish''
       \<and> map status (tasks s) = [COMPLETED, FAILED]
       \<and> tr = [SelectorCall ''hi'', HttpPost ELIZAOS_API_ENDPOINT ''hi'', HttpPost GOOSE_API_ENDPOINT ''hi'']
       \<and> graph_step sample_world Finalize tr s = (tr', Inr (END, s'))
       \<and> tr' = tr @ [AggregatorCall ''hi'' (agent_responses sample_world (tasks s))]
       \<and> final_output s' = ''merged answer''"
    by (intro exI[of _ tr] exI[of _ s] exI[of _ tr'] exI[of _ s']) simp
next
  have "map_option (\<lambda>(n, tr, s). (n, case graph_step silent_model_world n tr s of (tr', r) \<Rightarrow>
            map_sum (\<lambda>ex. ex) (\<lambda>_. ()) r))
          (after_steps silent_model_world 6 Initialize [] (initial_state ''hi''))
        = Some (Finalize, Inl (LibraryError ''APIConnectionError''))"
    by code_simp
  then obtain tr s where
    a: "after_steps silent_model_world 6 Initialize [] (initial_state ''hi'') = Some (Finalize, tr, s)"
    and g: "(case graph_step silent_model_world Finalize tr s of (tr', r) \<Rightarrow>
               map_sum (\<lambda>ex. ex) (\<lambda>_. ()) r) = Inl (LibraryError ''APIConnectionError'')"
    by auto
  obtain tr' r where g0: "graph_step silent_model_world Finalize tr s = (tr', r)"
    by (cases "graph_step silent_model_world Finalize tr s")
  with g have "map_sum (\<lambda>ex. ex) (\<lambda>_. ()) r = Inl (LibraryError ''APIConnectionError'')" by simp
  then have "r = Inl (LibraryError ''APIConnectionError'')" by (cases r) auto
  with g0 have gs: "graph_step silent_model_world Finalize tr s = (tr', Inl (LibraryError ''APIConnectionError''))"
    by simp
  have r: "reachable silent_model_world [] ''hi'' Finalize tr s" using after_steps_reachable[OF a] .
  note c2 = C2_finalize_after_all_attempted[of s silent_model_world "[]" "''hi''" tr s]
  have ex: "list_ex (\<lambda>t. status t = COMPLETED) (tasks s)"
    and l: "llm_invoke silent_model_world tr ''hi'' (agent_responses silent_model_world (tasks s))
           = Inl (LibraryError ''APIConnectionError'')"
    using c2 r gs by blast+
  from a r gs ex l show "\<exists>tr s tr'.
       after_steps silent_model_world 6 Initialize [] (initial_state ''hi'') = Some (Finalize, tr, s)
       \<and> reachable silent_model_world [] ''hi'' Finalize tr s
       \<and> graph_step silent_model_world Finalize tr s = (tr', Inl (LibraryError ''APIConnectionError''))
       \<and> list_ex (\<lambda>t. status t = COMPLETED) (tasks s)
       \<and> llm_invoke silent_model_world tr ''hi'' (agent_responses silent_model_world (tasks s))
           = Inl (LibraryError ''APIConnectionError'')"
    by (intro exI[of _ tr] exI[of _ s] exI[of _ tr']) simp
qed

section \<open>C3: the answer of the query endpoint\<close>

text \<open>
  C3, as amended. For a request to \<open>/query\<close> with a query string, when the workflow returns,
  the handler returns an object whose \<open>result\<close> field is the final state of the workflow: an
  object, not a string, with the keys of \<open>ManagerState\<close>. The merged answer is the string
  under its key \<open>final_output\<close>: the answer of the aggregation model, or the fallback string
  when no task was completed. The workflow does not return, and the handler raises, in two
  cases only: the selection named something that is not an agent type, and \<open>initialize\<close>
  raises a validation error when it creates the tasks; or the call of the aggregation model
  raises. The workflow never ends by reaching the recursion limit.
\<close>

theorem C3_query_endpoint:
  "(\<forall>tr' r. get_items e tr0 q = (tr', Inr r) \<longrightarrow>
      (\<exists>s. r = PyDict [(''result'', state_dict s)]
         \<and> dict_get r ''result'' = Some (state_dict s)
         \<and> \<not> is_str (state_dict s)
         \<and> dict_get (state_dict s) ''final_output'' = Some (PyStr (final_output s))
         \<and> dict_get (state_dict s) ''original_query'' = Some (PyStr q)
         \<and> reachable e tr0 q END tr' s
         \<and> (if list_ex (\<lambda>t. status t = COMPLETED) (tasks s)
             then \<exists>tr. tr' = tr @ [AggregatorCall q (agent_responses e (tasks s))]
                       \<and> llm_invoke e tr q (agent_responses e (tasks s)) = Inr (final_output s)
             else final_output s = fallback_output)))
   \<and> (\<forall>tr' f. get_items e tr0 q = (tr', Inl f) \<longrightarrow>
        f = Raised ValidationError \<and> tr' = tr0 @ [SelectorCall q]
        \<or> (\<exists>tr s ex. f = Raised ex \<and> reachable e tr0 q Finalize tr s
               \<and> list_ex (\<lambda>t. status t = COMPLETED) (tasks s)
               \<and> tr' = tr @ [AggregatorCall q (agent_responses e (tasks s))]
               \<and> llm_invoke e tr q (agent_responses e (tasks s)) = Inl ex))
   \<and> snd (get_items e tr0 q) \<noteq> Inl GraphRecursionError"
proof (intro conjI allI impI)
  fix tr' r assume g: "get_items e tr0 q = (tr', Inr r)"
  then obtain s where run: "run_framework_manager e tr0 q = (tr', Inr s)"
    and r: "r = PyDict [(''result'', state_dict s)]"
    by (auto simp: get_items_def query_manager_agent_def split: prod.splits sum.splits)
  have re: "reachable e tr0 q END tr' s" using run by (rule run_framework_manager_reachable)
  from final_state_output[OF re] have q: "original_query s = q"
    and fo: "if list_ex (\<lambda>t. status t = COMPLETED) (tasks s)
             then \<exists>tr. tr' = tr @ [AggregatorCall q (agent_responses e (tasks s))]
                       \<and> llm_invoke e tr q (agent_responses e (tasks s)) = Inr (final_output s)
             else final_output s = fallback_output"
    by simp_all
  have d1: "dict_get r ''result'' = Some (state_dict s)" by (simp add: r)
  have d2: "\<not> is_str (state_dict s)" by (simp add: state_dict_def)
  have d3: "dict_get (state_dict s) ''final_output'' = Some (PyStr (final_output s))"
    by (simp add: state_dict_def)
  have d4: "dict_get (state_dict s) ''original_query'' = Some (PyStr q)"
    by (simp add: state_dict_def q)
  from r d1 d2 d3 d4 re fo
  show "\<exists>s. r = PyDict [(''result'', state_dict s)]
         \<and> dict_get r ''result'' = Some (state_dict s)
         \<and> \<not> is_str (state_dict s)
         \<and> dict_get (state_dict s) ''final_output'' = Some (PyStr (final_output s))
         \<and> dict_get (state_dict s) ''original_query'' = Some (PyStr q)
         \<and> reachable e tr0 q END tr' s
         \<and> (if list_ex (\<lambda>t. status t = COMPLETED) (tasks s)
             then \<exists>tr. tr' = tr @ [AggregatorCall q (agent_responses e (tasks s))]
                       \<and> llm_invoke e tr q (agent_responses e (tasks s)) = Inr (final_output s)
             else final_output s = fallback_output)"
    by (intro exI[of _ s]) simp
next
  fix tr' f assume g: "get_items e tr0 q = (tr', Inl f)"
  then have run: "run_framework_manager e tr0 q = (tr', Inl f)"
    by (auto simp: get_items_def query_manager_agent_def split: prod.splits sum.splits)
  have "f \<noteq> GraphRecursionError"
    using run_framework_manager_no_recursion_error[of e tr0 q] run by auto
  then obtain ex where f: "f = Raised ex" by (cases f) auto
  from run_framework_manager_Raised[OF run[unfolded f]] f
  show "f = Raised ValidationError \<and> tr' = tr0 @ [SelectorCall q]
        \<or> (\<exists>tr s ex. f = Raised ex \<and> reachable e tr0 q Finalize tr s
               \<and> list_ex (\<lambda>t. status t = COMPLETED) (tasks s)
               \<and> tr' = tr @ [AggregatorCall q (agent_responses e (tasks s))]
               \<and> llm_invoke e tr q (agent_responses e (tasks s)) = Inl ex)"
    by blast
next
  show "snd (get_items e tr0 q) \<noteq> Inl GraphRecursionError"
    using run_framework_manager_no_recursion_error[of e tr0 q]
    by (auto simp: get_items_def query_manager_agent_def split: prod.splits sum.splits)
qed

text \<open>
  C3 as the specification states it fails: the \<open>result\<close> field of the response is the state of
  the workflow, an object, and the answer is a field of that object.
\<close>

theorem C3_counterexample:
  "get_items sample_world [] ''hi''
     = ([SelectorCall ''hi'', HttpPost ELIZAOS_API_ENDPOINT ''hi'', HttpPost GOOSE_API_ENDPOINT ''hi'',
         AggregatorCall ''hi'' (''ELIZAOS AGENT:'' @ [CHR 0x0A] @ ''use eliza'')],
        Inr (PyDict [(''result'', state_dict sample_final_state)]))
   \<and> dict_get (PyDict [(''result'', state_dict sample_final_state)]) ''result''
        = Some (state_dict sample_final_state)
   \<and> \<not> is_str (state_dict sample_final_state)
   \<and> dict_get (state_dict sample_final_state) ''final_output'' = Some (PyStr ''merged answer'')"
  by code_simp

theorem C3_query_endpoint_witness:
  "(\<exists>tr' s. get_items sample_world [] ''hi'' = (tr', Inr (PyDict [(''result'', state_dict s)]))
      \<and> reachable sample_world [] ''hi'' END tr' s
      \<and> \<not> is_str (state_dict s)
      \<and> dict_get (state_dict s) ''final_output'' = Some (PyStr ''merged answer'')
      \<and> snd (get_items sample_world [] ''hi'') \<noteq> Inl GraphRecursionError)
   \<and> get_items unknown_agent_world [] ''hi'' = ([SelectorCall ''hi''], Inl (Raised ValidationError))
   \<and> snd (get_items silent_model_world [] ''hi'') = Inl (Raised (LibraryError ''APIConnectionError''))"
proof (intro conjI)
  show "get_items unknown_agent_world [] ''hi'' = ([SelectorCall ''hi''], Inl (Raised ValidationError))"
    by code_simp
  show "snd (get_items silent_model_world [] ''hi'') = Inl (Raised (LibraryError ''APIConnectionError''))"
    by code_simp
next
  have "snd (get_items sample_world [] ''hi'') = Inr (PyDict [(''result'', state_dict sample_final_state)])"
    by code_simp
  then obtain tr' where
    g: "get_items sample_world [] ''hi'' = (tr', Inr (PyDict [(''result'', state_dict sample_final_state)]))"
    by (cases "get_items sample_world [] ''hi''") auto
  note c3 = C3_query_endpoint[of sample_world "[]" "''hi''"]
  from c3 g obtain s where r: "PyDict [(''result'', state_dict sample_final_state)] = PyDict [(''result'', state_dict s)]"
    and re: "reachable sample_world [] ''hi'' END tr' s"
    and ns: "\<not> is_str (state_dict s)"
    by blast
  from r have eq: "state_dict s = state_dict sample_final_state" by simp
  have "dict_get (state_dict sample_final_state) ''final_output'' = Some (PyStr ''merged answer'')"
    by (simp add: state_dict_def sample_final_state_def)
  then have d: "dict_get (state_dict s) ''final_output'' = Some (PyStr ''merged answer'')"
    by (simp add: eq)
  have nr: "snd (get_items sample_world [] ''hi'') \<noteq> Inl GraphRecursionError" using c3 by blast
  have g': "get_items sample_world [] ''hi'' = (tr', Inr (PyDict [(''result'', state_dict s)]))"
    using g eq by simp
  from g' re ns d nr
  show "\<exists>tr' s. get_items sample_world [] ''hi'' = (tr', Inr (PyDict [(''result'', state_dict s)]))
      \<and> reachable sample_world [] ''hi'' END tr' s
      \<and> \<not> is_str (state_dict s)
      \<and> dict_get (state_dict s) ''final_output'' = Some (PyStr ''merged answer'')
      \<and> snd (get_items sample_world [] ''hi'') \<noteq> Inl GraphRecursionError"
    by (intro exI[of _ tr'] exI[of _ s]) simp
qed

section \<open>C4: the loop terminates\<close>

text \<open>
  C4. The loop of \<open>select_next_agent\<close> and \<open>process_with_agent\<close> terminates. Agents are
  processed one at a time: each time the loop continues, \<open>process_with_agent\<close> runs on the
  one task \<open>select_next_agent\<close> selected, the first that is \<open>PENDING\<close>; it posts one request,
  moves that task to \<open>COMPLETED\<close> or \<open>FAILED\<close>, leaves every other task as it is and does
  not raise, so the number of \<open>PENDING\<close> tasks goes down by one. From \<open>select_next_agent\<close>
  with \<open>p\<close> tasks pending, \<open>2 * p + 2\<close> steps are enough for the graph to stop; at most three
  tasks exist, and a run of the workflow never reaches the recursion limit of the graph.
\<close>

theorem C4_loop_terminates:
  "snd (run_framework_manager e tr0 q) \<noteq> Inl GraphRecursionError
   \<and> (\<forall>n tr s. reachable e tr0 q n tr s \<longrightarrow> pending_count s \<le> length (tasks s) \<and> length (tasks s) \<le> 3)
   \<and> (\<forall>tr s fuel. reachable e tr0 q SelectNextAgent tr s \<and> 2 * pending_count s + 2 \<le> fuel \<longrightarrow>
         snd (run_graph e fuel SelectNextAgent tr s) \<noteq> Inl GraphRecursionError)
   \<and> (\<forall>tr s. reachable e tr0 q ProcessWithAgent tr s \<longrightarrow>
         (\<exists>tr' s' i. graph_step e ProcessWithAgent tr s = (tr', Inr (SelectNextAgent, s'))
            \<and> i < length (tasks s) \<and> length (tasks s') = length (tasks s)
            \<and> find (\<lambda>t. status t = PENDING) (tasks s) = Some (tasks s ! i)
            \<and> current_agent s = Some (agent_type (tasks s ! i))
            \<and> tr' = tr @ [HttpPost (framework_agents (agent_type (tasks s ! i))) q]
            \<and> (status (tasks s' ! i) = COMPLETED \<or> status (tasks s' ! i) = FAILED)
            \<and> (\<forall>j < length (tasks s). j \<noteq> i \<longrightarrow> tasks s' ! j = tasks s ! j)
            \<and> Suc (pending_count s') = pending_count s))"
proof (intro conjI allI impI)
  show "snd (run_framework_manager e tr0 q) \<noteq> Inl GraphRecursionError"
    by (rule run_framework_manager_no_recursion_error)
next
  fix n tr s assume r: "reachable e tr0 q n tr s"
  show "pending_count s \<le> length (tasks s)" by (rule pending_count_le)
  show "length (tasks s) \<le> 3"
  proof (rule distinct_agent_types_length)
    show "distinct (map agent_type (tasks s))"
      using reachable_inv[OF r] by (simp add: graph_inv_def)
  qed
next
  fix tr s fuel
  assume "reachable e tr0 q SelectNextAgent tr s \<and> 2 * pending_count s + 2 \<le> fuel"
  then show "snd (run_graph e fuel SelectNextAgent tr s) \<noteq> Inl GraphRecursionError"
    using run_graph_enough_fuel reachable_inv by blast
next
  fix tr s assume "reachable e tr0 q ProcessWithAgent tr s"
  then have "graph_inv tr0 q ProcessWithAgent tr s" by (rule reachable_inv)
  then show "\<exists>tr' s' i. graph_step e ProcessWithAgent tr s = (tr', Inr (SelectNextAgent, s'))
            \<and> i < length (tasks s) \<and> length (tasks s') = length (tasks s)
            \<and> find (\<lambda>t. status t = PENDING) (tasks s) = Some (tasks s ! i)
            \<and> current_agent s = Some (agent_type (tasks s ! i))
            \<and> tr' = tr @ [HttpPost (framework_agents (agent_type (tasks s ! i))) q]
            \<and> (status (tasks s' ! i) = COMPLETED \<or> status (tasks s' ! i) = FAILED)
            \<and> (\<forall>j < length (tasks s). j \<noteq> i \<longrightarrow> tasks s' ! j = tasks s ! j)
            \<and> Suc (pending_count s') = pending_count s"
    by (rule process_step_one_task)
qed

theorem C4_loop_terminates_witness:
  "\<exists>tr s tr' s'.
     after_steps sample_world 2 Initialize [] (initial_state ''hi'') = Some (ProcessWithAgent, tr, s)
     \<and> reachable sample_world [] ''hi'' ProcessWithAgent tr s
     \<and> graph_step sample_world ProcessWithAgent tr s = (tr', Inr (SelectNextAgent, s'))
     \<and> pending_count s = 2 \<and> pending_count s' = 1
     \<and> reachable sample_world [] ''hi'' SelectNextAgent tr' s'
     \<and> 2 * pending_count s' + 2 \<le> 4
     \<and> snd (run_graph sample_world 4 SelectNextAgent tr' s') \<noteq> Inl GraphRecursionError
     \<and> snd (run_framework_manager sample_world [] ''hi'') \<noteq> Inl GraphRecursionError"
proof -
  note c4 = C4_loop_terminates[of sample_world "[]" "''hi''"]
  have "map_option (\<lambda>(n, tr, s). (n, pending_count s))
          (after_steps sample_world 2 Initialize [] (initial_state ''hi'')) = Some (ProcessWithAgent, 2)"
    by code_simp
  then obtain tr s where
    a: "after_steps sample_world 2 Initialize [] (initial_state ''hi'') = Some (ProcessWithAgent, tr, s)"
    and p: "pending_count s = 2"
    by auto
  have r: "reachable sample_world [] ''hi'' ProcessWithAgent tr s"
    using after_steps_reachable[OF a] .
  from c4 r obtain tr' s' where
    gs: "graph_step sample_world ProcessWithAgent tr s = (tr', Inr (SelectNextAgent, s'))"
    and dec: "Suc (pending_count s') = pending_count s"
    by blast
  have p': "pending_count s' = 1" using dec p by simp
  have r': "reachable sample_world [] ''hi'' SelectNextAgent tr' s'"
    using reachable_step[OF r _ gs] by simp
  have fuel: "2 * pending_count s' + 2 \<le> 4" using p' by simp
  have t1: "snd (run_graph sample_world 4 SelectNextAgent tr' s') \<noteq> Inl GraphRecursionError"
    using c4 r' fuel by blast
  have t2: "snd (run_framework_manager sample_world [] ''hi'') \<noteq> Inl GraphRecursionError"
    using c4 by blast
  from a r gs p p' r' fuel t1 t2 show ?thesis
    by (intro exI[of _ tr] exI[of _ s] exI[of _ tr'] exI[of _ s']) simp
qed

section \<open>C5: the selection of agents\<close>

text \<open>
  C5, as amended. If the language-model call that selects the agents, or the reading of its
  verdict, fails for any reason (any exception), \<open>determine_required_agents\<close> returns the set
  of all three agent types, elizaos, tron and goose. When nothing raises, it returns the
  values under \<open>agent_type\<close> of the verdicts whose value under \<open>needed\<close> counts as true in a
  Python condition, and nothing else: every value it returns is one of them, every one of
  them is equal (as Python's \<open>==\<close> has it) to a value it returns, and when they are strings
  it returns exactly them. In particular, when every verdict holds an agent type and a
  boolean, as the schema asks, it returns exactly the agent types of the verdicts whose
  \<open>needed\<close> is true.
\<close>

theorem C5_required_agents:
  "(\<forall>ex. chain_invoke e tr q = Inl ex \<longrightarrow> snd (determine_required_agents e tr q) = all_agent_types)
   \<and> (\<forall>ex. selection_try (chain_invoke e tr q) = Inl ex \<longrightarrow>
         snd (determine_required_agents e tr q) = all_agent_types)
   \<and> set all_agent_types = {JStr (agent_value a) |a. True}
   \<and> all_agent_types = [JStr ''elizaos'', JStr ''tron'', JStr ''goose'']
   \<and> (\<forall>R. selection_try (chain_invoke e tr q) = Inr R \<longrightarrow>
         snd (determine_required_agents e tr q) = R
         \<and> (\<exists>result agents_list items.
               chain_invoke e tr q = Inr result \<and> subscript result ''agents'' = Inr agents_list
               \<and> py_iter agents_list = Inr items
               \<and> set R \<subseteq> set (needed_types items)
               \<and> (\<forall>a \<in> set (needed_types items). \<exists>b \<in> set R. py_eq a b)
               \<and> ((\<forall>a \<in> set (needed_types items). \<exists>x. a = JStr x) \<longrightarrow>
                    set R = set (needed_types items))))
   \<and> (\<forall>result items vs.
         chain_invoke e tr q = Inr result \<and> subscript result ''agents'' = Inr (JArr items)
         \<and> list_all2 (\<lambda>j v. subscript j ''agent_type'' = Inr (JStr (agent_value (fst v)))
                           \<and> subscript j ''needed'' = Inr (JBool (snd v))) items vs
         \<longrightarrow> set (snd (determine_required_agents e tr q)) = {JStr (agent_value a) |a. (a, True) \<in> set vs}
             \<and> distinct (snd (determine_required_agents e tr q)))"
proof (intro conjI allI impI)
  fix ex assume "chain_invoke e tr q = Inl ex"
  then have "selection_try (chain_invoke e tr q) = Inl ex" by (simp add: selection_try_Inl)
  then show "snd (determine_required_agents e tr q) = all_agent_types"
    by (rule determine_required_agents_fallback)
next
  fix ex assume "selection_try (chain_invoke e tr q) = Inl ex"
  then show "snd (determine_required_agents e tr q) = all_agent_types"
    by (rule determine_required_agents_fallback)
next
  show "set all_agent_types = {JStr (agent_value a) |a. True}" by (rule set_all_agent_types)
  show "all_agent_types = [JStr ''elizaos'', JStr ''tron'', JStr ''goose'']"
    by (simp add: all_agent_types_def)
next
  fix R assume st: "selection_try (chain_invoke e tr q) = Inr R"
  then show "snd (determine_required_agents e tr q) = R"
    by (simp add: determine_required_agents_def)
  from selection_try_Inr[OF st] obtain result agents_list items where
    ci: "chain_invoke e tr q = Inr result" and sub: "subscript result ''agents'' = Inr agents_list"
    and it: "py_iter agents_list = Inr items" and cr: "collect_required items [] = Inr R"
    by blast
  from collect_required_needed_types[OF cr] have
    ss: "set R \<subseteq> set (needed_types items)"
    and pe: "\<forall>a \<in> set (needed_types items). \<exists>b \<in> set R. py_eq a b"
    by simp_all
  have str: "(\<forall>a \<in> set (needed_types items). \<exists>x. a = JStr x) \<longrightarrow> set R = set (needed_types items)"
  proof
    assume all: "\<forall>a \<in> set (needed_types items). \<exists>x. a = JStr x"
    have "set (needed_types items) \<subseteq> set R"
    proof
      fix a assume a: "a \<in> set (needed_types items)"
      with all obtain x where x: "a = JStr x" by blast
      from pe a obtain b where "b \<in> set R" "py_eq a b" by blast
      then show "a \<in> set R" using x by (simp add: py_eq_JStr)
    qed
    with ss show "set R = set (needed_types items)" by blast
  qed
  from ci sub it ss pe str
  show "\<exists>result agents_list items.
               chain_invoke e tr q = Inr result \<and> subscript result ''agents'' = Inr agents_list
               \<and> py_iter agents_list = Inr items
               \<and> set R \<subseteq> set (needed_types items)
               \<and> (\<forall>a \<in> set (needed_types items). \<exists>b \<in> set R. py_eq a b)
               \<and> ((\<forall>a \<in> set (needed_types items). \<exists>x. a = JStr x) \<longrightarrow>
                    set R = set (needed_types items))"
    by (intro exI[of _ result] exI[of _ agents_list] exI[of _ items]) simp
next
  fix result items and vs :: "(AgentType \<times> bool) list"
  assume a: "chain_invoke e tr q = Inr result \<and> subscript result ''agents'' = Inr (JArr items)
         \<and> list_all2 (\<lambda>j v. subscript j ''agent_type'' = Inr (JStr (agent_value (fst v)))
                           \<and> subscript j ''needed'' = Inr (JBool (snd v))) items vs"
  then obtain R where R: "collect_required items [] = Inr R"
    and sR: "set R = {JStr (agent_value a) |a. (a, True) \<in> set vs}"
    using collect_required_verdicts[of items vs "[]"] by auto
  have "selection_try (chain_invoke e tr q) = Inr R"
    using a R by (simp add: selection_try_def bind_exc_def)
  then have "snd (determine_required_agents e tr q) = R"
    by (simp add: determine_required_agents_def)
  then show "set (snd (determine_required_agents e tr q)) = {JStr (agent_value a) |a. (a, True) \<in> set vs}"
    using sR by simp
  show "distinct (snd (determine_required_agents e tr q))"
    by (rule distinct_determine_required_agents)
qed

text \<open>
  C5 as stated fails: the selection answers, nothing raises, no verdict has \<open>needed\<close> true
  (each holds a string there), and yet elizaos and tron are returned, because the strings
  \<open>false\<close> and \<open>no\<close> are not empty.
\<close>

theorem C5_counterexample:
  "chain_invoke stringly_world [] ''hi'' = Inr (JObj [(''agents'', JArr stringly_verdicts)])
   \<and> length stringly_verdicts = 3
   \<and> subscript (stringly_verdicts ! 0) ''needed'' = Inr (JStr ''false'')
   \<and> subscript (stringly_verdicts ! 1) ''needed'' = Inr (JStr ''no'')
   \<and> subscript (stringly_verdicts ! 2) ''needed'' = Inr (JStr [])
   \<and> selection_try (chain_invoke stringly_world [] ''hi'') = Inr [JStr ''elizaos'', JStr ''tron'']
   \<and> determine_required_agents stringly_world [] ''hi''
       = ([SelectorCall ''hi''], [JStr ''elizaos'', JStr ''tron''])"
  by code_simp

theorem C5_required_agents_witness:
  "chain_invoke no_world [] ''hi'' = Inl (LibraryError ''APIConnectionError'')
   \<and> snd (determine_required_agents no_world [] ''hi'') = [JStr ''elizaos'', JStr ''tron'', JStr ''goose'']
   \<and> selection_try (chain_invoke garbled_world [] ''hi'') = Inl (KeyError ''agents'')
   \<and> snd (determine_required_agents garbled_world [] ''hi'') = [JStr ''elizaos'', JStr ''tron'', JStr ''goose'']
   \<and> chain_invoke sample_world [] ''hi'' =
        Inr (JObj [(''agents'', JArr [verdict ELIZAOS True, verdict TRON False, verdict GOOSE True])])
   \<and> set (snd (determine_required_agents sample_world [] ''hi'')) = {JStr ''elizaos'', JStr ''goose''}
   \<and> selection_try (chain_invoke stringly_world [] ''hi'') = Inr [JStr ''elizaos'', JStr ''tron'']
   \<and> needed_types stringly_verdicts = [JStr ''elizaos'', JStr ''tron'']
   \<and> snd (determine_required_agents stringly_world [] ''hi'') = [JStr ''elizaos'', JStr ''tron'']"
proof -
  have c1: "chain_invoke no_world [] ''hi'' = Inl (LibraryError ''APIConnectionError'')"
    by (simp add: no_world_def)
  have r1: "snd (determine_required_agents no_world [] ''hi'') = [JStr ''elizaos'', JStr ''tron'', JStr ''goose'']"
    using C5_required_agents[of no_world "[]" "''hi''"] c1 by simp
  have c2: "selection_try (chain_invoke garbled_world [] ''hi'') = Inl (KeyError ''agents'')"
    by (simp add: garbled_world_def selection_try_def bind_exc_def)
  have r2: "snd (determine_required_agents garbled_world [] ''hi'') = [JStr ''elizaos'', JStr ''tron'', JStr ''goose'']"
    using C5_required_agents[of garbled_world "[]" "''hi''"] c2 by simp
  define items where "items = [verdict ELIZAOS True, verdict TRON False, verdict GOOSE True]"
  define vs where "vs = [(ELIZAOS, True), (TRON, False), (GOOSE, True)]"
  have c3: "chain_invoke sample_world [] ''hi'' = Inr (JObj [(''agents'', JArr items)])"
    by (simp add: sample_world_def no_world_def items_def)
  have s3: "subscript (JObj [(''agents'', JArr items)]) ''agents'' = Inr (JArr items)" by simp
  have l3: "list_all2 (\<lambda>j v. subscript j ''agent_type'' = Inr (JStr (agent_value (fst v)))
                           \<and> subscript j ''needed'' = Inr (JBool (snd v))) items vs"
    by (simp add: items_def vs_def verdict_def)
  have "set (snd (determine_required_agents sample_world [] ''hi'')) = {JStr (agent_value a) |a. (a, True) \<in> set vs}"
    using C5_required_agents[of sample_world "[]" "''hi''"] c3 s3 l3 by blast
  also have "\<dots> = (\<lambda>a. JStr (agent_value a)) ` {a. (a, True) \<in> set vs}"
    by auto
  also have "{a. (a, True) \<in> set vs} = {ELIZAOS, GOOSE}"
    by (auto simp: vs_def)
  also have "(\<lambda>a. JStr (agent_value a)) ` {ELIZAOS, GOOSE} = {JStr ''elizaos'', JStr ''goose''}"
    by simp
  finally have r3: "set (snd (determine_required_agents sample_world [] ''hi'')) = {JStr ''elizaos'', JStr ''goose''}" .
  have c4: "selection_try (chain_invoke stringly_world [] ''hi'') = Inr [JStr ''elizaos'', JStr ''tron'']"
    by code_simp
  have n4: "needed_types stringly_verdicts = [JStr ''elizaos'', JStr ''tron'']"
    by (simp add: stringly_verdicts_def)
  have r4: "snd (determine_required_agents stringly_world [] ''hi'') = [JStr ''elizaos'', JStr ''tron'']"
    using C5_required_agents[of stringly_world "[]" "''hi''"] c4 by blast
  show ?thesis using c1 r1 c2 r2 c3 r3 c4 n4 r4 by (simp add: items_def)
qed

section \<open>C6: tasks that are done stay as they are\<close>

text \<open>
  C6. Every task goes from \<open>PENDING\<close> to exactly one of \<open>COMPLETED\<close> or \<open>FAILED\<close>, at
  most once: from any state an execution of the graph passes through, whatever steps follow,
  a task whose status is \<open>COMPLETED\<close> or \<open>FAILED\<close> is the same task afterwards (status,
  response and error included), and a task that has changed was \<open>PENDING\<close> and is now
  \<open>COMPLETED\<close> or \<open>FAILED\<close>.
\<close>

theorem C6_terminal_tasks_are_final:
  assumes "reachable e tr0 q n tr s" and "steps e n tr s n' tr' s'" and "i < length (tasks s)"
  shows "i < length (tasks s')
       \<and> (status (tasks s ! i) = COMPLETED \<or> status (tasks s ! i) = FAILED \<longrightarrow>
            status (tasks s' ! i) = status (tasks s ! i) \<and>
            response (tasks s' ! i) = response (tasks s ! i) \<and>
            error (tasks s' ! i) = error (tasks s ! i) \<and>
            tasks s' ! i = tasks s ! i)
       \<and> (tasks s' ! i \<noteq> tasks s ! i \<longrightarrow>
            status (tasks s ! i) = PENDING \<and>
            (status (tasks s' ! i) = COMPLETED \<or> status (tasks s' ! i) = FAILED))"
  using steps_tasks[OF assms(2) reachable_inv[OF assms(1)] assms(3)] by auto

theorem C6_terminal_tasks_are_final_witness:
  "\<exists>n tr s n' tr' s'.
     after_steps sample_world 3 Initialize [] (initial_state ''hi'') = Some (n, tr, s)
     \<and> after_steps sample_world 2 n tr s = Some (n', tr', s')
     \<and> reachable sample_world [] ''hi'' n tr s \<and> steps sample_world n tr s n' tr' s'
     \<and> map status (tasks s) = [COMPLETED, PENDING]
     \<and> map status (tasks s') = [COMPLETED, FAILED]
     \<and> tasks s' ! 0 = tasks s ! 0 \<and> tasks s' ! 1 \<noteq> tasks s ! 1"
proof -
  have "map_option (\<lambda>(n, tr, s). (map status (tasks s),
            map_option (\<lambda>(n', tr', s'). map status (tasks s')) (after_steps sample_world 2 n tr s)))
          (after_steps sample_world 3 Initialize [] (initial_state ''hi''))
        = Some ([COMPLETED, PENDING], Some [COMPLETED, FAILED])"
    by code_simp
  then obtain n tr s n' tr' s' where
    a: "after_steps sample_world 3 Initialize [] (initial_state ''hi'') = Some (n, tr, s)"
    and b: "after_steps sample_world 2 n tr s = Some (n', tr', s')"
    and m: "map status (tasks s) = [COMPLETED, PENDING]"
    and m': "map status (tasks s') = [COMPLETED, FAILED]"
    by auto
  have r: "reachable sample_world [] ''hi'' n tr s" using after_steps_reachable[OF a] .
  have st: "steps sample_world n tr s n' tr' s'" using after_steps_steps[OF b] .
  from m have len: "0 < length (tasks s)" and c: "status (tasks s ! 0) = COMPLETED"
    and p: "status (tasks s ! 1) = PENDING"
    by (cases "tasks s"; auto)+
  from m' have f: "status (tasks s' ! 1) = FAILED" by (cases "tasks s'"; auto)
  have same: "tasks s' ! 0 = tasks s ! 0"
    using C6_terminal_tasks_are_final[OF r st len] c by simp
  have diff: "tasks s' ! 1 \<noteq> tasks s ! 1" using p f by auto
  with a b r st m m' same show ?thesis
    by (intro exI[of _ n] exI[of _ tr] exI[of _ s] exI[of _ n'] exI[of _ tr'] exI[of _ s']) simp
qed

section \<open>C7: the text handed to the aggregation\<close>



section \<open>C8: the fallback when nothing was completed\<close>

text \<open>
  C8. If no task has status \<open>COMPLETED\<close> when \<open>finalize\<close> runs (every dispatch failed, or
  no agent was required and no task was created), \<open>finalize\<close> makes no call at all, the second
  language-model call included, and returns the fixed string \<open>Unable to provide a response
  as all specialized agents encountered errors.\<close> as \<open>final_output\<close>; in an execution of the
  graph that string is the \<open>final_output\<close> of the state the graph ends in.
\<close>

theorem C8_fallback_without_model_call:
  assumes "\<forall>t \<in> set (tasks s). status t \<noteq> COMPLETED"
  shows "finalize e tr s =
           (tr, Inr (empty_update\<lparr>upd_final_output := Some fallback_output,
                                  upd_messages := Some [answer_message fallback_output]\<rparr>))
       \<and> fallback_output = ''Unable to provide a response as all specialized agents encountered errors.''
       \<and> (reachable e tr0 q Finalize tr s \<longrightarrow>
            (\<exists>s'. graph_step e Finalize tr s = (tr, Inr (END, s')) \<and> final_output s' = fallback_output
                  \<and> reachable e tr0 q END tr s'))"
proof (intro conjI impI)
  show "finalize e tr s =
           (tr, Inr (empty_update\<lparr>upd_final_output := Some fallback_output,
                                  upd_messages := Some [answer_message fallback_output]\<rparr>))"
    by (rule finalize_none_completed[OF assms])
next
  show "fallback_output = ''Unable to provide a response as all specialized agents encountered errors.''"
    by (simp add: fallback_output_def)
next
  assume r: "reachable e tr0 q Finalize tr s"
  then have "final_output s = []"
    using reachable_inv by (fastforce simp: graph_inv_def)
  then have gs: "graph_step e Finalize tr s =
     (tr, Inr (END, s\<lparr>messages := messages s @ [answer_message fallback_output],
                      final_output := fallback_output\<rparr>))"
    using finalize_step_none_completed[OF assms, of e tr] by simp
  moreover have "reachable e tr0 q END tr (s\<lparr>messages := messages s @ [answer_message fallback_output],
                      final_output := fallback_output\<rparr>)"
    using reachable_step[OF r _ gs] by simp
  ultimately show "\<exists>s'. graph_step e Finalize tr s = (tr, Inr (END, s')) \<and> final_output s' = fallback_output
                  \<and> reachable e tr0 q END tr s'"
    by simp
qed

theorem C8_fallback_without_model_call_witness:
  "(\<exists>tr s s'. after_steps no_world 8 Initialize [] (initial_state ''hi'') = Some (Finalize, tr, s)
       \<and> map status (tasks s) = [FAILED, FAILED, FAILED]
       \<and> reachable no_world [] ''hi'' Finalize tr s
       \<and> fst (finalize no_world tr s) = tr
       \<and> graph_step no_world Finalize tr s = (tr, Inr (END, s'))
       \<and> final_output s' = ''Unable to provide a response as all specialized agents encountered errors.'')
   \<and> (\<exists>tr s s'. after_steps idle_world 2 Initialize [] (initial_state ''hi'') = Some (Finalize, tr, s)
       \<and> tasks s = []
       \<and> reachable idle_world [] ''hi'' Finalize tr s
       \<and> fst (finalize idle_world tr s) = tr
       \<and> graph_step idle_world Finalize tr s = (tr, Inr (END, s'))
       \<and> final_output s' = ''Unable to provide a response as all specialized agents encountered errors.'')"
proof (rule conjI)
  have "map_option (\<lambda>(n, tr, s). (n, map status (tasks s)))
          (after_steps no_world 8 Initialize [] (initial_state ''hi''))
        = Some (Finalize, [FAILED, FAILED, FAILED])"
    by code_simp
  then obtain tr s where
    a: "after_steps no_world 8 Initialize [] (initial_state ''hi'') = Some (Finalize, tr, s)"
    and m: "map status (tasks s) = [FAILED, FAILED, FAILED]"
    by auto
  have r: "reachable no_world [] ''hi'' Finalize tr s" using after_steps_reachable[OF a] .
  have "\<forall>x \<in> set (map status (tasks s)). x \<noteq> COMPLETED" unfolding m by simp
  then have nc: "\<forall>t \<in> set (tasks s). status t \<noteq> COMPLETED" by simp
  note c8 = C8_fallback_without_model_call[OF nc, of no_world tr "[]" "''hi''"]
  from c8 r obtain s' where
    gs: "graph_step no_world Finalize tr s = (tr, Inr (END, s'))"
    and fo: "final_output s' = fallback_output"
    by blast
  have f: "fst (finalize no_world tr s) = tr" using c8 by simp
  have fb: "fallback_output = ''Unable to provide a response as all specialized agents encountered errors.''"
    using c8 by blast
  from a m r f gs fo fb
  show "\<exists>tr s s'. after_steps no_world 8 Initialize [] (initial_state ''hi'') = Some (Finalize, tr, s)
       \<and> map status (tasks s) = [FAILED, FAILED, FAILED]
       \<and> reachable no_world [] ''hi'' Finalize tr s
       \<and> fst (finalize no_world tr s) = tr
       \<and> graph_step no_world Finalize tr s = (tr, Inr (END, s'))
       \<and> final_output s' = ''Unable to provide a response as all specialized agents encountered errors.''"
    by (intro exI[of _ tr] exI[of _ s] exI[of _ s']) simp
next
  have "map_option (\<lambda>(n, tr, s). (n, tasks s))
          (after_steps idle_world 2 Initialize [] (initial_state ''hi''))
        = Some (Finalize, [])"
    by code_simp
  then obtain tr s where
    a: "after_steps idle_world 2 Initialize [] (initial_state ''hi'') = Some (Finalize, tr, s)"
    and m: "tasks s = []"
    by auto
  have r: "reachable idle_world [] ''hi'' Finalize tr s" using after_steps_reachable[OF a] .
  have nc: "\<forall>t \<in> set (tasks s). status t \<noteq> COMPLETED" using m by simp
  note c8 = C8_fallback_without_model_call[OF nc, of idle_world tr "[]" "''hi''"]
  from c8 r obtain s' where
    gs: "graph_step idle_world Finalize tr s = (tr, Inr (END, s'))"
    and fo: "final_output s' = fallback_output"
    by blast
  have f: "fst (finalize idle_world tr s) = tr" using c8 by simp
  have fb: "fallback_output = ''Unable to provide a response as all specialized agents encountered errors.''"
    using c8 by blast
  from a m r f gs fo fb
  show "\<exists>tr s s'. after_steps idle_world 2 Initialize [] (initial_state ''hi'') = Some (Finalize, tr, s)
       \<and> tasks s = []
       \<and> reachable idle_world [] ''hi'' Finalize tr s
       \<and> fst (finalize idle_world tr s) = tr
       \<and> graph_step idle_world Finalize tr s = (tr, Inr (END, s'))
       \<and> final_output s' = ''Unable to provide a response as all specialized agents encountered errors.''"
    by (intro exI[of _ tr] exI[of _ s] exI[of _ s']) simp
qed

section \<open>C9: no task is ever in progress\<close>

text \<open>
  C9. The status domain contains \<open>IN_PROGRESS\<close>, but no operation of the workflow assigns
  it: in every state an execution of the graph passes through, the status of every task is
  \<open>PENDING\<close>, \<open>COMPLETED\<close> or \<open>FAILED\<close>.
\<close>

theorem C9_never_in_progress:
  assumes "reachable e tr0 q n tr s" and "t \<in> set (tasks s)"
  shows "status t = PENDING \<or> status t = COMPLETED \<or> status t = FAILED"
proof -
  have "status t \<noteq> IN_PROGRESS"
    using reachable_inv[OF assms(1)] assms(2) by (simp add: graph_inv_def)
  then show ?thesis by (cases "status t") simp_all
qed

theorem C9_never_in_progress_witness:
  "\<exists>n tr s t. after_steps sample_world 3 Initialize [] (initial_state ''hi'') = Some (n, tr, s)
     \<and> reachable sample_world [] ''hi'' n tr s
     \<and> map status (tasks s) = [COMPLETED, PENDING]
     \<and> t \<in> set (tasks s)
     \<and> (status t = PENDING \<or> status t = COMPLETED \<or> status t = FAILED)"
proof -
  have "map_option (\<lambda>(n, tr, s). map status (tasks s))
          (after_steps sample_world 3 Initialize [] (initial_state ''hi'')) = Some [COMPLETED, PENDING]"
    by code_simp
  then obtain n tr s where a: "after_steps sample_world 3 Initialize [] (initial_state ''hi'') = Some (n, tr, s)"
    and m: "map status (tasks s) = [COMPLETED, PENDING]"
    by auto
  have r: "reachable sample_world [] ''hi'' n tr s"
    using after_steps_reachable[OF a] .
  from m obtain t where t: "t \<in> set (tasks s)" by (cases "tasks s") auto
  have "status t = PENDING \<or> status t = COMPLETED \<or> status t = FAILED"
    using C9_never_in_progress[OF r t] .
  with a r m t show ?thesis
    by (intro exI[of _ n] exI[of _ tr] exI[of _ s] exI[of _ t]) simp
qed

section \<open>C10: the query is kept\<close>



end
